theory Spec2Isabelle
  imports
    Main
    "HOL-Library.List_Lexorder"
    "HOL-Library.AList"
    "HOL-Library.Multiset"
begin

section \<open>JavaScript strings\<close>

text \<open>
  A JavaScript string is a sequence of UTF-16 code units; a code unit is modelled by its
  numeric value. String comparison with \<open><\<close> and \<open>>\<close> is the lexicographic order on
  code units, which is the order of \<^theory_text>\<open>List_Lexorder\<close> on \<open>nat list\<close>.
  \<open>cu\<close> turns an ASCII literal into code units.
\<close>

type_synonym jsstring = "nat list"

definition cu :: "string \<Rightarrow> jsstring" where
  "cu s = map of_char s"

text \<open>
  The class \<open>\s\<close> of a regular expression, which is also the set of code units that
  \<open>String.prototype.trim\<close> strips (WhiteSpace and LineTerminator of ECMAScript).
\<close>

definition is_ws :: "nat \<Rightarrow> bool" where
  "is_ws c \<longleftrightarrow>
     c \<in> {9, 10, 11, 12, 13, 32, 160, 5760, 8232, 8233, 8239, 8287, 12288, 65279}
     \<or> (8192 \<le> c \<and> c \<le> 8202)"

definition trimStart :: "jsstring \<Rightarrow> jsstring" where
  "trimStart s = dropWhile is_ws s"

definition trimEnd :: "jsstring \<Rightarrow> jsstring" where
  "trimEnd s = rev (dropWhile is_ws (rev s))"

definition trim :: "jsstring \<Rightarrow> jsstring" where
  "trim s = trimEnd (trimStart s)"

text \<open>
  \<open>String.prototype.toLowerCase\<close> is a built-in of the host: it works on code
  points, with the case tables of Unicode, and may change the length of a string. On a
  string whose code units are all below U+0100 (Basic Latin and Latin-1 Supplement) it
  is written out here: \<open>A\<close> to \<open>Z\<close> and U+00C0 to U+00DE, without the
  multiplication sign U+00D7, go to the code unit 32 above, and every other code unit
  is kept. On every other string it is the host's function, the parameter
  \<open>hostLower\<close>.
\<close>

definition lowerCU :: "nat \<Rightarrow> nat" where
  "lowerCU c =
     (if (65 \<le> c \<and> c \<le> 90) \<or> (192 \<le> c \<and> c \<le> 222 \<and> c \<noteq> 215) then c + 32 else c)"

definition toLowerCase :: "(jsstring \<Rightarrow> jsstring) \<Rightarrow> jsstring \<Rightarrow> jsstring" where
  "toLowerCase hostLower s =
     (if list_all (\<lambda>c. c < 256) s then map lowerCU s else hostLower s)"

text \<open>
  Matching under the flag \<open>i\<close> (without \<open>u\<close>) compares canonicalized code units:
  the upper-case form, except that a code unit from 128 on is never mapped to one below
  128. The patterns of this program are ASCII, so only the ASCII letters matter here:
  every other code unit is kept, and a code unit from 128 on never equals a pattern's.
\<close>

definition canonicalize :: "nat \<Rightarrow> nat" where
  "canonicalize c = (if 97 \<le> c \<and> c \<le> 122 then c - 32 else c)"

definition startsWithCI :: "jsstring \<Rightarrow> jsstring \<Rightarrow> bool" where
  "startsWithCI s p \<longleftrightarrow>
     length p \<le> length s \<and> map canonicalize (take (length p) s) = map canonicalize p"

definition startsWith :: "jsstring \<Rightarrow> jsstring \<Rightarrow> bool" where
  "startsWith s p \<longleftrightarrow> take (length p) s = p"

definition endsWith :: "jsstring \<Rightarrow> jsstring \<Rightarrow> bool" where
  "endsWith s p \<longleftrightarrow> length p \<le> length s \<and> drop (length s - length p) s = p"

fun includesStr :: "jsstring \<Rightarrow> jsstring \<Rightarrow> bool" where
  "includesStr [] p = (p = [])"
| "includesStr (c # cs) p = (startsWith (c # cs) p \<or> includesStr cs p)"

text \<open>\<open>s.split(d)\<close> for a separator of one code unit: never the empty list.\<close>

fun split :: "nat \<Rightarrow> jsstring \<Rightarrow> jsstring list" where
  "split d [] = [[]]"
| "split d (c # cs) =
     (if c = d then [] # split d cs
      else (case split d cs of [] \<Rightarrow> [[c]] | l # ls \<Rightarrow> (c # l) # ls))"

text \<open>\<open>xs.join(sep)\<close> on an array of strings.\<close>

fun join :: "jsstring \<Rightarrow> jsstring list \<Rightarrow> jsstring" where
  "join sep [] = []"
| "join sep [x] = x"
| "join sep (x # y # ys) = x @ sep @ join sep (y # ys)"

section \<open>The name normalizer\<close>

text \<open>
  \<open>.replace(/\s*\(copy\)/i, '')\<close>: the pattern has no flag \<open>g\<close> and no anchor, so the
  leftmost match is removed, wherever it stands. A match at a position is the longest run
  of white space there followed by \<open>(copy)\<close> in any letter case; \<open>matchCopy\<close> gives
  what follows the match.
\<close>

definition matchCopy :: "jsstring \<Rightarrow> jsstring option" where
  "matchCopy s =
     (let r = dropWhile is_ws s
      in if startsWithCI r (cu ''(copy)'') then Some (drop 6 r) else None)"

fun replaceCopy :: "jsstring \<Rightarrow> jsstring" where
  "replaceCopy [] = []"
| "replaceCopy (c # cs) =
     (case matchCopy (c # cs) of Some rest \<Rightarrow> rest | None \<Rightarrow> c # replaceCopy cs)"

text \<open>
  \<open>.replace(/\s+(94%|v94)$/i, '')\<close>: anchored at the end of the string. The leftmost
  match starts where the run of white space before the last three code units starts.
\<close>

definition replaceVersion :: "jsstring \<Rightarrow> jsstring" where
  "replaceVersion s =
     (let n = length s; r = take (n - 3) s; t = drop (n - 3) s
      in if 3 \<le> n \<and> (startsWithCI t (cu ''94%'') \<or> startsWithCI t (cu ''v94''))
            \<and> r \<noteq> [] \<and> is_ws (last r)
         then trimEnd r else s)"

text \<open>\<open>.replace(/\<trademark>|\<registered>|\<copyright>/g, '')\<close>: U+2122, U+00AE and U+00A9, all of them.\<close>

definition is_symbol :: "nat \<Rightarrow> bool" where
  "is_symbol c \<longleftrightarrow> c = 8482 \<or> c = 174 \<or> c = 169"

definition replaceSymbols :: "jsstring \<Rightarrow> jsstring" where
  "replaceSymbols s = filter (\<lambda>c. \<not> is_symbol c) s"

text \<open>\<open>.replace(/\s+/g, ' ')\<close>: every maximal run of white space becomes one space.\<close>

function replaceWhitespace :: "jsstring \<Rightarrow> jsstring" where
  "replaceWhitespace [] = []"
| "replaceWhitespace (c # cs) =
     (if is_ws c then 32 # replaceWhitespace (dropWhile is_ws cs)
      else c # replaceWhitespace cs)"
  by pat_completeness auto
termination
  by (relation "measure length") (auto simp: less_Suc_eq_le length_dropWhile_le)

text \<open>\<open>normalizeGameName\<close>; \<open>!name\<close> holds of \<open>null\<close> and of the empty string.\<close>

definition normalizeGameName ::
  "(jsstring \<Rightarrow> jsstring) \<Rightarrow> jsstring option \<Rightarrow> jsstring" where
  "normalizeGameName hostLower name =
     (case name of
        None \<Rightarrow> []
      | Some n \<Rightarrow>
          if n = [] then []
          else trim (replaceWhitespace (replaceSymbols (toLowerCase hostLower
                 (replaceVersion (replaceCopy (trim n)))))))"

text \<open>\<open>cleanGameNameForDisplay\<close>: the same steps without \<open>toLowerCase\<close>.\<close>

definition cleanGameNameForDisplay :: "jsstring option \<Rightarrow> jsstring" where
  "cleanGameNameForDisplay name =
     (case name of
        None \<Rightarrow> []
      | Some n \<Rightarrow>
          if n = [] then []
          else trim (replaceWhitespace (replaceSymbols
                 (replaceVersion (replaceCopy (trim n))))))"

section \<open>The data model\<close>

text \<open>
  The types of \<open>types.ts\<close>, as the code uses them. A value of type \<open>string | null\<close>
  is a \<open>jsstring option\<close>. The browser's \<open>File\<close> is read through its name, size
  and MIME type only.
\<close>

record FileDetail =
  name :: jsstring
  md5 :: "jsstring option"
  sha1 :: "jsstring option"

record GameInstanceData =
  gameName :: "jsstring option"
  gameCode :: "jsstring option"
  files :: "FileDetail list"

datatype FileStatus = Pending | Queued | Processing | Completed | Error

record ProcessedFileData =
  id' :: jsstring
  pdfFileName :: jsstring
  reportNumber :: "jsstring option"
  certificationDate :: "jsstring option"
  supplierRegistrationNumber :: "jsstring option"
  extractedInstances :: "GameInstanceData list"
  status :: FileStatus
  errorMessage :: "jsstring option"

record ProviderInfo =
  provider :: jsstring
  activatedInIms :: "jsstring option"
  portalLiveDate :: "jsstring option"
  imsGameCode :: "jsstring option"

text \<open>
  A \<open>Map\<close> keeps its entries in insertion order, and \<open>set\<close> on a key that is there
  replaces the value in place: an association list with \<open>AList.update\<close>, read with
  \<open>map_of\<close>.
\<close>

type_synonym GameProviderMap = "(jsstring \<times> ProviderInfo) list"

record File =
  name' :: jsstring
  size' :: nat
  type' :: jsstring

record ExtractedGeminiInfo =
  reportNumber' :: "jsstring option"
  certificationDate' :: "jsstring option"
  supplierRegistrationNumber' :: "jsstring option"
  gameInstances :: "GameInstanceData list"

text \<open>\<open>x || ''\<close> and \<open>x || null\<close> on a \<open>string | null | undefined\<close>, and \<open>!!x\<close>.\<close>

definition orEmpty :: "jsstring option \<Rightarrow> jsstring" where
  "orEmpty x = (case x of None \<Rightarrow> [] | Some s \<Rightarrow> s)"

definition orNull :: "jsstring \<Rightarrow> jsstring option" where
  "orNull s = (if s = [] then None else Some s)"

definition truthy :: "jsstring option \<Rightarrow> bool" where
  "truthy x = (case x of None \<Rightarrow> False | Some s \<Rightarrow> s \<noteq> [])"

section \<open>The reference table parser\<close>

text \<open>The body of the \<open>forEach\<close> of \<open>parseProviderData\<close>, on one line.\<close>

definition addProviderLine ::
  "(jsstring \<Rightarrow> jsstring) \<Rightarrow> jsstring \<Rightarrow> GameProviderMap \<Rightarrow> GameProviderMap" where
  "addProviderLine hostLower line newProviderMap =
     (let parts = split 9 line
      in if 6 \<le> length parts then
           (let gameName = trim (parts ! 0);
                providerName = trim (parts ! 1);
                activatedInIms = orNull (trim (parts ! 2));
                portalLiveDate = orNull (trim (parts ! 3));
                imsGameCode = orNull (trim (parts ! 5))
            in if gameName \<noteq> [] \<and> providerName \<noteq> [] then
                 (let normalizedKey = normalizeGameName hostLower (Some gameName)
                  in if normalizedKey \<noteq> [] then
                       AList.update normalizedKey
                         \<lparr>provider = providerName, activatedInIms = activatedInIms,
                          portalLiveDate = portalLiveDate, imsGameCode = imsGameCode\<rparr>
                         newProviderMap
                     else newProviderMap)
               else newProviderMap)
         else newProviderMap)"

text \<open>
  \<open>lines[0] && lines[0].toLowerCase().includes('game provider') ? lines.slice(1) : lines\<close>:
  the test reads the whole first line.
\<close>

definition dataLines :: "(jsstring \<Rightarrow> jsstring) \<Rightarrow> jsstring list \<Rightarrow> jsstring list" where
  "dataLines hostLower lines =
     (case lines of
        [] \<Rightarrow> []
      | l0 # rest \<Rightarrow>
          if l0 \<noteq> [] \<and> includesStr (toLowerCase hostLower l0) (cu ''game provider'')
          then rest
          else lines)"

definition parseProviderData :: "(jsstring \<Rightarrow> jsstring) \<Rightarrow> jsstring \<Rightarrow> GameProviderMap" where
  "parseProviderData hostLower text =
     fold (addProviderLine hostLower) (dataLines hostLower (split 10 text)) []"

section \<open>The date formatter\<close>

definition is_digit :: "nat \<Rightarrow> bool" where
  "is_digit c \<longleftrightarrow> 48 \<le> c \<and> c \<le> 57"

text \<open>\<open>parseInt(s, 10)\<close> on a string of decimal digits.\<close>

definition parseInt :: "jsstring \<Rightarrow> nat" where
  "parseInt s = foldl (\<lambda>a c. 10 * a + (c - 48)) 0 s"

text \<open>The decimal digits of a number, and \<open>padStart(k, '0')\<close>.\<close>

fun digitsOf :: "nat \<Rightarrow> jsstring" where
  "digitsOf n = (if n < 10 then [48 + n] else digitsOf (n div 10) @ [48 + n mod 10])"

definition padZero :: "nat \<Rightarrow> jsstring \<Rightarrow> jsstring" where
  "padZero k s = replicate (k - length s) 48 @ s"

text \<open>\<open>/^\d{4}-\d{2}-\d{2}$/\<close>.\<close>

definition isIsoShape :: "jsstring \<Rightarrow> bool" where
  "isIsoShape s \<longleftrightarrow>
     length s = 10 \<and> list_all is_digit (take 4 s) \<and> s ! 4 = 45
     \<and> list_all is_digit (take 2 (drop 5 s)) \<and> s ! 7 = 45
     \<and> list_all is_digit (drop 8 s)"

text \<open>
  \<open>/^(\d{1,2})[/\-](\d{1,2})[/\-](\d{4})$/\<close>: the three groups of a match. A digit is
  no separator, so the first two groups are the whole runs of digits before the
  separators.
\<close>

definition is_sep :: "nat \<Rightarrow> bool" where
  "is_sep c \<longleftrightarrow> c = 47 \<or> c = 45"

definition matchDmy :: "jsstring \<Rightarrow> (jsstring \<times> jsstring \<times> jsstring) option" where
  "matchDmy s =
     (let d = takeWhile is_digit s; r1 = dropWhile is_digit s
      in if (length d = 1 \<or> length d = 2) \<and> r1 \<noteq> [] \<and> is_sep (hd r1) then
           (let m = takeWhile is_digit (tl r1); r2 = dropWhile is_digit (tl r1)
            in if (length m = 1 \<or> length m = 2) \<and> r2 \<noteq> [] \<and> is_sep (hd r2)
                  \<and> length (tl r2) = 4 \<and> list_all is_digit (tl r2)
               then Some (d, m, tl r2) else None)
         else None)"

text \<open>
  A \<open>Date\<close> is read here through its UTC calendar fields only (the time of day of the
  dates built below is midnight UTC). \<open>new Date(Date.UTC(year, month, day))\<close> carries
  the days beyond the end of a month into the following months, and reads a year from 0
  to 99 as 1900 plus the year. The month is counted from 0.
\<close>

record JSDate =
  utcFullYear :: nat
  utcMonth :: nat
  utcDate :: nat

definition isLeapYear :: "nat \<Rightarrow> bool" where
  "isLeapYear y \<longleftrightarrow> (y mod 4 = 0 \<and> y mod 100 \<noteq> 0) \<or> y mod 400 = 0"

definition daysInMonth :: "nat \<Rightarrow> nat \<Rightarrow> nat" where
  "daysInMonth y m =
     (if m = 1 then (if isLeapYear y then 29 else 28)
      else if m = 3 \<or> m = 5 \<or> m = 8 \<or> m = 10 then 30 else 31)"

function carryDays :: "nat \<Rightarrow> nat \<Rightarrow> nat \<Rightarrow> JSDate" where
  "carryDays y m d =
     (if daysInMonth y m < d then
        (if m = 11 then carryDays (y + 1) 0 (d - daysInMonth y m)
         else carryDays y (m + 1) (d - daysInMonth y m))
      else \<lparr>utcFullYear = y, utcMonth = m, utcDate = d\<rparr>)"
  by pat_completeness auto
termination
  by (relation "measure (\<lambda>(y, m, d). d)") (auto simp: daysInMonth_def)

definition dateUTC :: "nat \<Rightarrow> nat \<Rightarrow> nat \<Rightarrow> JSDate" where
  "dateUTC year month day = carryDays (if year \<le> 99 then 1900 + year else year) month day"

text \<open>\<open>date.toISOString().split('T')[0]\<close>.\<close>

definition isoDatePart :: "JSDate \<Rightarrow> jsstring" where
  "isoDatePart date =
     (if utcFullYear date \<le> 9999 then padZero 4 (digitsOf (utcFullYear date))
      else 43 # padZero 6 (digitsOf (utcFullYear date)))
     @ [45] @ padZero 2 (digitsOf (utcMonth date + 1))
     @ [45] @ padZero 2 (digitsOf (utcDate date))"

text \<open>
  Case 2 of \<open>formatDateToYyyyMmDd\<close>: the result when the branch returns. The time
  value of a date built from a year of four digits is never \<open>NaN\<close>.
\<close>

definition formatDmy :: "jsstring \<Rightarrow> jsstring option" where
  "formatDmy s =
     (case matchDmy s of
        None \<Rightarrow> None
      | Some (p1, p2, p3) \<Rightarrow>
          (let day = parseInt p1; month = parseInt p2; year = parseInt p3
           in if 1000 < year \<and> 1 \<le> month \<and> month \<le> 12 \<and> 1 \<le> day \<and> day \<le> 31 then
                (let date = dateUTC year (month - 1) day
                 in if utcDate date = day then Some (isoDatePart date) else None)
              else None))"

text \<open>
  \<open>new Date(string)\<close> is the host's parser: ECMAScript fixes it for the ISO format
  only and leaves every other string to the implementation. It is a parameter here:
  \<open>hostDate s\<close> is \<open>None\<close> when the time value of \<open>new Date(s)\<close> is \<open>NaN\<close>, and
  otherwise the date part of its \<open>toISOString()\<close>.
\<close>

definition formatDateToYyyyMmDd ::
  "(jsstring \<Rightarrow> jsstring option) \<Rightarrow> jsstring option \<Rightarrow> jsstring" where
  "formatDateToYyyyMmDd hostDate dateString =
     (case dateString of
        None \<Rightarrow> []
      | Some ds \<Rightarrow>
          if ds = [] then []
          else
            (let trimmedDateString = trim ds
             in if isIsoShape trimmedDateString \<and> hostDate trimmedDateString \<noteq> None
                then trimmedDateString
                else
                  (case formatDmy trimmedDateString of
                     Some r \<Rightarrow> r
                   | None \<Rightarrow>
                       (case hostDate trimmedDateString of Some r \<Rightarrow> r | None \<Rightarrow> []))))"

section \<open>The report table and its exports\<close>

definition getDisplayHash :: "FileDetail \<Rightarrow> jsstring" where
  "getDisplayHash file =
     (if truthy (md5 file) then orEmpty (md5 file)
      else if truthy (sha1 file) then orEmpty (sha1 file)
      else [])"

text \<open>The hash cell of the table on screen.\<close>

definition hashCell :: "GameInstanceData \<Rightarrow> jsstring" where
  "hashCell instance =
     (if files instance \<noteq> [] then join (cu '', '') (map getDisplayHash (files instance))
      else [])"

text \<open>
  \<open>formatListForClipboard\<close>; the items the code passes are strings, and
  \<open>filter(Boolean)\<close> drops the empty ones. \<open>.replace(/"/g, '""')\<close> doubles every
  quote (code unit 34).
\<close>

definition formatListForClipboard :: "jsstring list \<Rightarrow> jsstring" where
  "formatListForClipboard items =
     (if items = [] then []
      else (let content = join (cu '', '') (filter (\<lambda>i. i \<noteq> []) items)
            in if content = [] then []
               else [34] @ concat (map (\<lambda>c. if c = 34 then [34, 34] else [c]) content) @ [34]))"

definition authoritativeImsCodeMap :: "GameProviderMap \<Rightarrow> (jsstring \<times> jsstring) list" where
  "authoritativeImsCodeMap gameProviderMap =
     fold (\<lambda>(gameNameKey, providerInfo) acc.
             if truthy (imsGameCode providerInfo)
             then AList.update gameNameKey (orEmpty (imsGameCode providerInfo)) acc
             else acc)
       gameProviderMap []"

definition fullHeaders :: jsstring where
  "fullHeaders =
     join [9] [cu ''GameName'', cu ''GameCodes'', cu ''Progressive'', cu ''CertificateRef'',
       cu ''Activated in IMS'', cu ''Portal live date'', cu ''SupplierRegistrationnumber'',
       cu ''Deactivated'', cu ''FileList'', cu ''HashList'']"

definition fullRow ::
  "(jsstring \<Rightarrow> jsstring) \<Rightarrow> (jsstring \<Rightarrow> jsstring option) \<Rightarrow> GameProviderMap \<Rightarrow> ProcessedFileData
     \<Rightarrow> GameInstanceData \<Rightarrow> jsstring" where
  "fullRow hostLower hostDate gameProviderMap fileEntry instance =
     (let cleanedGameName = cleanGameNameForDisplay (gameName instance);
          gameNameKey = normalizeGameName hostLower (gameName instance);
          gameCodes = orEmpty (map_of (authoritativeImsCodeMap gameProviderMap) gameNameKey);
          providerInfo = map_of gameProviderMap gameNameKey;
          portalDate = formatDateToYyyyMmDd hostDate
            (case providerInfo of None \<Rightarrow> None | Some i \<Rightarrow> orNull (orEmpty (portalLiveDate i)))
      in join [9]
           [cleanedGameName, gameCodes, [], orEmpty (reportNumber fileEntry),
            (case providerInfo of None \<Rightarrow> [] | Some i \<Rightarrow> orEmpty (activatedInIms i)),
            portalDate, [], [],
            formatListForClipboard (map name (files instance)),
            formatListForClipboard (map getDisplayHash (files instance))])"

definition fullRows ::
  "(jsstring \<Rightarrow> jsstring) \<Rightarrow> (jsstring \<Rightarrow> jsstring option) \<Rightarrow> GameProviderMap \<Rightarrow> ProcessedFileData
     \<Rightarrow> jsstring list" where
  "fullRows hostLower hostDate gameProviderMap fileEntry =
     (if status fileEntry \<noteq> Completed then []
      else if extractedInstances fileEntry \<noteq> [] then
        map (fullRow hostLower hostDate gameProviderMap fileEntry) (extractedInstances fileEntry)
      else [join [9] [[], [], [], orEmpty (reportNumber fileEntry), [], [], [], [], [], []]])"

text \<open>
  \<open>copyToClipboard\<close>: the text written to the clipboard, \<open>None\<close> when the function
  alerts and writes nothing.
\<close>

definition copyToClipboard ::
  "(jsstring \<Rightarrow> jsstring) \<Rightarrow> (jsstring \<Rightarrow> jsstring option) \<Rightarrow> GameProviderMap \<Rightarrow> ProcessedFileData list
     \<Rightarrow> jsstring option" where
  "copyToClipboard hostLower hostDate gameProviderMap data =
     (let tableRows = concat (map (fullRows hostLower hostDate gameProviderMap) data);
          rows = join [10] tableRows
      in if trim rows = [] then None else Some (fullHeaders @ [10] @ rows))"

record ComDataRow =
  gameName' :: jsstring
  gameCode' :: jsstring
  certificateRef :: jsstring
  activatedInIms' :: jsstring
  date :: jsstring
  provider' :: jsstring

definition comHeaders :: jsstring where
  "comHeaders =
     join [9] [cu ''Game Name'', cu ''IMS Game Code'', cu ''Certificate Number'',
       cu ''Activated in IMS'', cu ''Portal Live Date'']"

definition comRow ::
  "(jsstring \<Rightarrow> jsstring) \<Rightarrow> (jsstring \<Rightarrow> jsstring option) \<Rightarrow> GameProviderMap \<Rightarrow> ProcessedFileData
     \<Rightarrow> GameInstanceData \<Rightarrow> ComDataRow" where
  "comRow hostLower hostDate gameProviderMap fileEntry instance =
     (let gameNameKey = normalizeGameName hostLower (gameName instance);
          providerInfo = map_of gameProviderMap gameNameKey
      in \<lparr>gameName' = cleanGameNameForDisplay (gameName instance),
          gameCode' = orEmpty (map_of (authoritativeImsCodeMap gameProviderMap) gameNameKey),
          certificateRef = orEmpty (reportNumber fileEntry),
          activatedInIms' =
            (case providerInfo of None \<Rightarrow> [] | Some i \<Rightarrow> orEmpty (activatedInIms i)),
          date = formatDateToYyyyMmDd hostDate
            (case providerInfo of None \<Rightarrow> None | Some i \<Rightarrow> orNull (orEmpty (portalLiveDate i))),
          provider' =
            (case providerInfo of
               None \<Rightarrow> cu ''ZZZ_Uncategorized''
             | Some i \<Rightarrow> if provider i = [] then cu ''ZZZ_Uncategorized'' else provider i)\<rparr>)"

definition comRows ::
  "(jsstring \<Rightarrow> jsstring) \<Rightarrow> (jsstring \<Rightarrow> jsstring option) \<Rightarrow> GameProviderMap \<Rightarrow> ProcessedFileData
     \<Rightarrow> ComDataRow list" where
  "comRows hostLower hostDate gameProviderMap fileEntry =
     (if status fileEntry \<noteq> Completed then []
      else
        (let instances =
               (if extractedInstances fileEntry \<noteq> [] then extractedInstances fileEntry
                else [\<lparr>gameName = None, gameCode = None, files = []\<rparr>])
         in map (comRow hostLower hostDate gameProviderMap fileEntry) instances))"

text \<open>The comparison function handed to \<open>sort\<close>.\<close>

definition comCompare :: "ComDataRow \<Rightarrow> ComDataRow \<Rightarrow> int" where
  "comCompare a b =
     (if provider' a < provider' b then -1
      else if provider' a > provider' b then 1
      else if gameName' a < gameName' b then -1
      else if gameName' a > gameName' b then 1
      else 0)"

text \<open>
  \<open>Array.prototype.sort\<close> is stable, and the comparison is a consistent one, so the
  result is the stable sort by it: insertion sort, each row put before the first row
  that it does not come after.
\<close>

fun insertRow :: "ComDataRow \<Rightarrow> ComDataRow list \<Rightarrow> ComDataRow list" where
  "insertRow a [] = [a]"
| "insertRow a (b # bs) = (if comCompare a b \<le> 0 then a # b # bs else b # insertRow a bs)"

definition sortRows :: "ComDataRow list \<Rightarrow> ComDataRow list" where
  "sortRows rows = foldr insertRow rows []"

definition comLine :: "ComDataRow \<Rightarrow> jsstring" where
  "comLine row =
     join [9] [gameName' row, gameCode' row, certificateRef row, activatedInIms' row, date row]"

text \<open>The rows of \<open>copyForComProcess\<close> after the sort, and the text it writes.\<close>

definition comDataRows ::
  "(jsstring \<Rightarrow> jsstring) \<Rightarrow> (jsstring \<Rightarrow> jsstring option) \<Rightarrow> GameProviderMap \<Rightarrow> ProcessedFileData list
     \<Rightarrow> ComDataRow list" where
  "comDataRows hostLower hostDate gameProviderMap data =
     sortRows (concat (map (comRows hostLower hostDate gameProviderMap) data))"

definition copyForComProcess ::
  "(jsstring \<Rightarrow> jsstring) \<Rightarrow> (jsstring \<Rightarrow> jsstring option) \<Rightarrow> GameProviderMap \<Rightarrow> ProcessedFileData list
     \<Rightarrow> jsstring option" where
  "copyForComProcess hostLower hostDate gameProviderMap data =
     (if concat (map (comRows hostLower hostDate gameProviderMap) data) = [] then None
      else Some (comHeaders @ [10]
                 @ join [10] (map comLine (comDataRows hostLower hostDate gameProviderMap data))))"

section \<open>The archive export\<close>

text \<open>\<open>name.replace(/[<>:"/\\|?*]/g, '_')\<close>.\<close>

definition sanitizeFolderName :: "jsstring \<Rightarrow> jsstring" where
  "sanitizeFolderName n =
     map (\<lambda>c. if c \<in> {60, 62, 58, 34, 47, 92, 124, 63, 42} then 95 else c) n"

text \<open>
  The folder of one instance in \<open>handleExportZip\<close>: \<open>providerName\<close> after the lookup
  by name and the two code suffixes, then \<open>providerName?.trim() || 'Uncategorized'\<close>,
  sanitized.
\<close>

definition resolvedProviderName ::
  "(jsstring \<Rightarrow> jsstring) \<Rightarrow> GameProviderMap \<Rightarrow> GameInstanceData \<Rightarrow> jsstring option" where
  "resolvedProviderName hostLower gameProviderMap instance =
     (let gameNameKey = normalizeGameName hostLower (gameName instance);
          providerInfo = map_of gameProviderMap gameNameKey;
          providerName = map_option provider providerInfo
      in if \<not> truthy providerName then
           (if truthy (gameCode instance) then
              (if endsWith (orEmpty (gameCode instance)) (cu ''_mcg'') then Some (cu ''Games Global'')
               else if endsWith (orEmpty (gameCode instance)) (cu ''_prg'') then Some (cu ''Pragmatic'')
               else providerName)
            else providerName)
         else providerName)"

definition zipFolderName ::
  "(jsstring \<Rightarrow> jsstring) \<Rightarrow> GameProviderMap \<Rightarrow> GameInstanceData \<Rightarrow> jsstring" where
  "zipFolderName hostLower gameProviderMap instance =
     sanitizeFolderName
       (let t = (case resolvedProviderName hostLower gameProviderMap instance of
                   None \<Rightarrow> [] | Some p \<Rightarrow> trim p)
        in if t = [] then cu ''Uncategorized'' else t)"

text \<open>
  The archive is the map from a path (folder, file name) to the file stored there;
  \<open>zip.folder(name)\<close> returns a folder for every name, and \<open>file\<close> on a path that is
  there replaces the entry. \<open>processedFolders\<close> is a \<open>Set\<close>, kept in insertion order.
\<close>

type_synonym Zip = "((jsstring \<times> jsstring) \<times> File) list"

definition zipInstance ::
  "(jsstring \<Rightarrow> jsstring) \<Rightarrow> GameProviderMap \<Rightarrow> File \<Rightarrow> GameInstanceData \<Rightarrow> Zip \<times> jsstring list
     \<Rightarrow> Zip \<times> jsstring list" where
  "zipInstance hostLower gameProviderMap originalFile instance acc =
     (let folderName = zipFolderName hostLower gameProviderMap instance
      in if folderName \<notin> set (snd acc) then
           (AList.update (folderName, name' originalFile) originalFile (fst acc),
            snd acc @ [folderName])
         else acc)"

text \<open>The body of the loop over \<open>filesToZip\<close>, for a file whose original is there.\<close>

definition zipFile ::
  "(jsstring \<Rightarrow> jsstring) \<Rightarrow> GameProviderMap \<Rightarrow> File \<Rightarrow> ProcessedFileData \<Rightarrow> Zip \<Rightarrow> Zip \<times> jsstring list" where
  "zipFile hostLower gameProviderMap originalFile processedFile archive =
     (let acc = fold (zipInstance hostLower gameProviderMap originalFile)
                  (extractedInstances processedFile) (archive, [])
      in if snd acc = [] then
           (AList.update (cu ''Uncategorized'', name' originalFile) originalFile (fst acc),
            [cu ''Uncategorized''])
         else acc)"

definition zipStep ::
  "(jsstring \<Rightarrow> jsstring) \<Rightarrow> GameProviderMap \<Rightarrow> (jsstring \<times> File) list \<Rightarrow> ProcessedFileData \<Rightarrow> Zip \<times> nat
     \<Rightarrow> Zip \<times> nat" where
  "zipStep hostLower gameProviderMap originalFilesMap processedFile acc =
     (case map_of originalFilesMap (id' processedFile) of
        None \<Rightarrow> acc
      | Some originalFile \<Rightarrow>
          (let r = zipFile hostLower gameProviderMap originalFile processedFile (fst acc)
           in (fst r, if snd r \<noteq> [] then snd acc + 1 else snd acc)))"

text \<open>The state of the component \<open>App\<close>.\<close>

record AppState =
  processedFiles :: "ProcessedFileData list"
  originalFilesMap :: "(jsstring \<times> File) list"
  isBatchProcessing :: bool
  isZipping :: bool
  apiKey :: jsstring
  gameProviderMap :: GameProviderMap
  providerDataText :: jsstring
  providerDataStatus :: jsstring

text \<open>
  \<open>handleExportZip\<close>: the archive handed to the download (\<open>None\<close> when there is none)
  and the state after it. The generation of the archive itself is the library's.
\<close>

definition handleExportZip ::
  "(jsstring \<Rightarrow> jsstring) \<Rightarrow> AppState \<Rightarrow> Zip option \<times> AppState" where
  "handleExportZip hostLower st =
     (if isZipping st \<or> isBatchProcessing st
         \<or> filter (\<lambda>f. status f = Completed) (processedFiles st) = []
         \<or> gameProviderMap st = []
      then (None, st)
      else
        (let filesToZip = filter (\<lambda>pf. status pf = Completed) (processedFiles st);
             r = fold (zipStep hostLower (gameProviderMap st) (originalFilesMap st)) filesToZip ([], 0)
         in if snd r = 0 then
              (None, st\<lparr>providerDataStatus :=
                 cu ''No files could be mapped to providers or added to Uncategorized.''\<rparr>)
            else
              (Some (fst r), st\<lparr>providerDataStatus :=
                 cu ''Successfully exported '' @ digitsOf (snd r) @ cu '' file(s) in ZIP.''\<rparr>)))"

section \<open>The batch pipeline\<close>

text \<open>
  \<open>handleFilesSelected\<close>. \<open>MAX_FILE_SIZE_BYTES\<close> and \<open>MAX_FILE_SIZE_MB\<close> are
  constants of \<open>constants.ts\<close>, parameters here; each file comes with the value of
  \<open>Date.now()\<close> read for its identifier.
\<close>

definition isPdf :: "File \<Rightarrow> bool" where
  "isPdf file \<longleftrightarrow> type' file = cu ''application/pdf''"

definition isImage :: "File \<Rightarrow> bool" where
  "isImage file \<longleftrightarrow>
     startsWith (type' file) (cu ''image/png'') \<or> startsWith (type' file) (cu ''image/jpeg'')"

definition fileId :: "File \<Rightarrow> nat \<Rightarrow> jsstring" where
  "fileId file now = name' file @ [45] @ digitsOf now"

definition initialFileData :: "nat \<Rightarrow> nat \<Rightarrow> File \<times> nat \<Rightarrow> ProcessedFileData" where
  "initialFileData MAX_FILE_SIZE_BYTES MAX_FILE_SIZE_MB fn =
     (let file = fst fn;
          blank = \<lparr>id' = fileId file (snd fn), pdfFileName = name' file, reportNumber = None,
                   certificationDate = None, supplierRegistrationNumber = None,
                   extractedInstances = [], status = Queued, errorMessage = None\<rparr>
      in if MAX_FILE_SIZE_BYTES < size' file then
           blank\<lparr>status := Error,
                 errorMessage := Some (cu ''File exceeds '' @ digitsOf MAX_FILE_SIZE_MB
                                       @ cu ''MB limit.'')\<rparr>
         else if \<not> isPdf file \<and> \<not> isImage file then
           blank\<lparr>status := Error,
                 errorMessage := Some (cu ''Invalid file type: '' @ type' file
                   @ cu ''. Please upload PDF (.pdf), PNG (.png), or JPEG (.jpg) files.'')\<rparr>
         else blank)"

definition handleFilesSelected :: "nat \<Rightarrow> nat \<Rightarrow> (File \<times> nat) list \<Rightarrow> AppState \<Rightarrow> AppState" where
  "handleFilesSelected MAX_FILE_SIZE_BYTES MAX_FILE_SIZE_MB files' st =
     st\<lparr>originalFilesMap :=
          fold (\<lambda>fn. AList.update (fileId (fst fn) (snd fn)) (fst fn)) files' (originalFilesMap st),
        processedFiles :=
          processedFiles st @ map (initialFileData MAX_FILE_SIZE_BYTES MAX_FILE_SIZE_MB) files'\<rparr>"

text \<open>
  The collaborators of \<open>handleStartProcessing\<close>: each returns its result, or the
  message of the error it throws.
\<close>

record Collaborators =
  extractTextFromPdf :: "File \<Rightarrow> jsstring + jsstring"
  extractInfoFromText :: "jsstring \<Rightarrow> jsstring \<Rightarrow> jsstring + ExtractedGeminiInfo"
  convertFileToBase64AndGetMime :: "File \<Rightarrow> jsstring + jsstring \<times> jsstring"
  extractInfoFromImage :: "jsstring \<Rightarrow> jsstring \<Rightarrow> jsstring \<Rightarrow> jsstring + ExtractedGeminiInfo"

text \<open>The \<open>try\<close> block for one file: the extracted data, or the message thrown.\<close>

definition extractFile ::
  "Collaborators \<Rightarrow> jsstring \<Rightarrow> (jsstring \<times> File) list \<Rightarrow> ProcessedFileData
     \<Rightarrow> jsstring + ExtractedGeminiInfo" where
  "extractFile env key filesMap currentFileToProcess =
     (case map_of filesMap (id' currentFileToProcess) of
        None \<Rightarrow> Inl (cu ''Original file not found for processing.'')
      | Some file \<Rightarrow>
          if isPdf file then
            (case extractTextFromPdf env file of
               Inl e \<Rightarrow> Inl e
             | Inr textContent \<Rightarrow>
                 if trim textContent = []
                 then Inl (cu ''No text content could be extracted from the PDF.'')
                 else extractInfoFromText env textContent key)
          else if isImage file then
            (case convertFileToBase64AndGetMime env file of
               Inl e \<Rightarrow> Inl e
             | Inr bm \<Rightarrow>
                 if fst bm = [] then Inl (cu ''Could not convert image to base64.'')
                 else extractInfoFromImage env (fst bm) (snd bm) key)
          else Inl (cu ''Unsupported file type for processing: '' @ type' file))"

text \<open>
  One turn of the loop over \<open>filesToProcess\<close>: the two updates of \<open>processedFiles\<close>,
  each a \<open>map\<close> over the list that changes the entries with the identifier of the
  current file.
\<close>

definition processFile ::
  "Collaborators \<Rightarrow> jsstring \<Rightarrow> (jsstring \<times> File) list \<Rightarrow> ProcessedFileData
     \<Rightarrow> ProcessedFileData list \<Rightarrow> ProcessedFileData list" where
  "processFile env key filesMap currentFileToProcess prev =
     (let prev1 = map (\<lambda>f. if id' f = id' currentFileToProcess
                            then f\<lparr>status := Processing\<rparr> else f) prev
      in case extractFile env key filesMap currentFileToProcess of
           Inr extractedData \<Rightarrow>
             map (\<lambda>f. if id' f = id' currentFileToProcess
                      then f\<lparr>reportNumber := reportNumber' extractedData,
                             certificationDate := certificationDate' extractedData,
                             supplierRegistrationNumber := supplierRegistrationNumber' extractedData,
                             extractedInstances := gameInstances extractedData,
                             status := Completed\<rparr>
                      else f) prev1
         | Inl message \<Rightarrow>
             map (\<lambda>f. if id' f = id' currentFileToProcess
                      then f\<lparr>status := Error,
                             errorMessage := Some (if message = []
                               then cu ''Failed to process file or extract data.''
                               else message)\<rparr>
                      else f) prev1)"

definition filesToProcess :: "AppState \<Rightarrow> ProcessedFileData list" where
  "filesToProcess st = filter (\<lambda>f. status f = Queued) (processedFiles st)"

text \<open>
  \<open>handleStartProcessing\<close>: the alert shown (if any) and the state when the run is
  over.
\<close>

definition handleStartProcessing ::
  "(jsstring \<Rightarrow> jsstring) \<Rightarrow> Collaborators \<Rightarrow> AppState \<Rightarrow> jsstring option \<times> AppState" where
  "handleStartProcessing hostLower env st =
     (if isBatchProcessing st \<or> isZipping st then (None, st)
      else if apiKey st = [] then
        (Some (cu ''Please enter your Gemini API Key to proceed.''), st)
      else
        (let parsedMap = parseProviderData hostLower (providerDataText st)
         in if parsedMap = [] then
              (Some (cu ''Provider data is missing or invalid. Please paste data from Monday.com before processing.''),
               st\<lparr>providerDataStatus :=
                 cu ''Failed to load provider data. Please paste valid data before processing.''\<rparr>)
            else
              (let st1 = st\<lparr>gameProviderMap := parsedMap,
                            providerDataStatus :=
                              cu ''Loaded '' @ digitsOf (length parsedMap)
                              @ cu '' game provider mapping''
                              @ (if length parsedMap = 1 then [] else cu ''s'') @ cu ''.''\<rparr>
               in if filesToProcess st = [] then
                    (Some (cu ''No files in the queue to process.''), st1)
                  else
                    (None,
                     st1\<lparr>processedFiles :=
                           fold (processFile env (apiKey st) (originalFilesMap st))
                             (filesToProcess st) (processedFiles st),
                         isBatchProcessing := False\<rparr>))))"

section \<open>Predicates of the statements\<close>

text \<open>
  \<open>includesCI s p\<close>: \<open>p\<close> occurs in \<open>s\<close> in some letter case. \<open>collapsed s\<close>:
  the only white space of \<open>s\<close> is single spaces.
\<close>

fun includesCI :: "jsstring \<Rightarrow> jsstring \<Rightarrow> bool" where
  "includesCI [] p = (p = [])"
| "includesCI (c # cs) p = (startsWithCI (c # cs) p \<or> includesCI cs p)"

fun collapsed :: "jsstring \<Rightarrow> bool" where
  "collapsed [] = True"
| "collapsed (c # cs) =
     ((is_ws c \<longrightarrow> c = 32 \<and> (case cs of [] \<Rightarrow> True | d # _ \<Rightarrow> \<not> is_ws d)) \<and> collapsed cs)"

text \<open>
  A code unit that is white space or the opening parenthesis is none of the code units
  that \<open>(copy)\<close> has after its first.
\<close>

definition blocks :: "nat \<Rightarrow> bool" where
  "blocks c \<longleftrightarrow> is_ws c \<or> c = 40"

text \<open>
  \<open>eraseGameCodes\<close> forgets the game code that the extraction gave each instance:
  two lists of files differ in those codes only when they are equal after it.
  \<open>keyLe\<close> is the order of the condensed table: by provider, then by displayed name.
\<close>

definition eraseGameCodes :: "ProcessedFileData \<Rightarrow> ProcessedFileData" where
  "eraseGameCodes f =
     f\<lparr>extractedInstances := map (\<lambda>i. i\<lparr>gameCode := None\<rparr>) (extractedInstances f)\<rparr>"

definition keyLe :: "ComDataRow \<Rightarrow> ComDataRow \<Rightarrow> bool" where
  "keyLe a b \<longleftrightarrow>
     provider' a < provider' b \<or> (provider' a = provider' b \<and> gameName' a \<le> gameName' b)"

text \<open>
  A file passes the two tests of \<open>handleFilesSelected\<close> when it is not larger than the
  ceiling and is a PDF or an image for the tests of the code; the other files are the
  rejected ones.
\<close>

definition accepted :: "nat \<Rightarrow> File \<Rightarrow> bool" where
  "accepted MAX_FILE_SIZE_BYTES file \<longleftrightarrow>
     \<not> MAX_FILE_SIZE_BYTES < size' file \<and> (isPdf file \<or> isImage file)"

text \<open>
  The files that a run of \<open>handleStartProcessing\<close> takes from \<open>originalFilesMap\<close>,
  with \<open>originalFilesMap.get(currentFileToProcess.id)\<close> for each queued entry: they are
  the files that the run gives to \<open>extractTextFromPdf\<close> and to
  \<open>convertFileToBase64AndGetMime\<close>. Two families of collaborators agree on a list of
  files when they do the same with each of these files and with everything that is
  not a file.
\<close>

definition filesRead :: "AppState \<Rightarrow> File list" where
  "filesRead st =
     concat (map (\<lambda>c. case map_of (originalFilesMap st) (id' c) of
                         None \<Rightarrow> [] | Some file \<Rightarrow> [file])
               (filesToProcess st))"

definition agreeOn :: "File list \<Rightarrow> Collaborators \<Rightarrow> Collaborators \<Rightarrow> bool" where
  "agreeOn fs env env' \<longleftrightarrow>
     list_all (\<lambda>file. extractTextFromPdf env file = extractTextFromPdf env' file
                 \<and> convertFileToBase64AndGetMime env file
                     = convertFileToBase64AndGetMime env' file) fs
     \<and> extractInfoFromText env = extractInfoFromText env'
     \<and> extractInfoFromImage env = extractInfoFromImage env'"

section \<open>Example inputs\<close>

text \<open>
  A host function for lowercasing, which is not consulted on the strings of the
  examples (they are ASCII); a reference table with one game, instances that the table
  knows and does not know, files of several sizes and types, and collaborators that
  succeed.
\<close>

definition exampleLower :: "jsstring \<Rightarrow> jsstring" where
  "exampleLower s = map lowerCU s"


definition exampleMap :: GameProviderMap where
  "exampleMap =
     [(cu ''book of ra'',
       \<lparr>provider = cu ''Novomatic'', activatedInIms = None, portalLiveDate = None,
        imsGameCode = None\<rparr>)]"

definition knownGame :: GameInstanceData where
  "knownGame = \<lparr>gameName = Some (cu ''Book of Ra''), gameCode = None, files = []\<rparr>"

definition unknownGame :: GameInstanceData where
  "unknownGame = \<lparr>gameName = Some (cu ''Mystery''), gameCode = None, files = []\<rparr>"

definition examplePdf :: File where
  "examplePdf = \<lparr>name' = cu ''cert.pdf'', size' = 1000, type' = cu ''application/pdf''\<rparr>"

definition mixedFile :: ProcessedFileData where
  "mixedFile =
     \<lparr>id' = cu ''cert.pdf-1'', pdfFileName = cu ''cert.pdf'', reportNumber = None,
      certificationDate = None, supplierRegistrationNumber = None,
      extractedInstances = [knownGame, unknownGame], status = Completed,
      errorMessage = None\<rparr>"

definition mixedState :: AppState where
  "mixedState =
     \<lparr>processedFiles = [mixedFile], originalFilesMap = [(cu ''cert.pdf-1'', examplePdf)],
      isBatchProcessing = False, isZipping = False, apiKey = cu ''key'',
      gameProviderMap = exampleMap, providerDataText = [], providerDataStatus = []\<rparr>"

definition headerLine :: jsstring where
  "headerLine =
     cu ''Name'' @ [9] @ cu ''Game Provider'' @ [9] @ cu ''Activated in IMS'' @ [9]
     @ cu ''Portal Live Date'' @ [9] @ cu ''Notes'' @ [9] @ cu ''IMS Game Code''"

definition dataLine :: jsstring where
  "dataLine =
     cu ''Book of Ra'' @ [9] @ cu ''Novomatic'' @ [9] @ cu ''Yes'' @ [9]
     @ cu ''05/03/2024'' @ [9] @ cu ''-'' @ [9] @ cu ''bor_1''"

definition pngxFile :: File where
  "pngxFile = \<lparr>name' = cu ''scan.png'', size' = 1000, type' = cu ''image/pngx''\<rparr>"

definition bigPdf :: File where
  "bigPdf = \<lparr>name' = cu ''big.pdf'', size' = 20000000, type' = cu ''application/pdf''\<rparr>"

definition emptyState :: AppState where
  "emptyState =
     \<lparr>processedFiles = [], originalFilesMap = [], isBatchProcessing = False,
      isZipping = False, apiKey = cu ''key'', gameProviderMap = [],
      providerDataText = dataLine, providerDataStatus = []\<rparr>"

definition exampleInfo :: ExtractedGeminiInfo where
  "exampleInfo =
     \<lparr>reportNumber' = Some (cu ''R-1''), certificationDate' = None,
      supplierRegistrationNumber' = None, gameInstances = [knownGame]\<rparr>"

definition exampleEnv :: Collaborators where
  "exampleEnv =
     \<lparr>extractTextFromPdf = (\<lambda>f. Inr (cu ''text'')),
      extractInfoFromText = (\<lambda>t k. Inr exampleInfo),
      convertFileToBase64AndGetMime = (\<lambda>f. Inr (cu ''AAAA'', type' f)),
      extractInfoFromImage = (\<lambda>b m k. Inr exampleInfo)\<rparr>"

definition bigTwin :: File where
  "bigTwin = \<lparr>name' = cu ''cert.pdf'', size' = 20000000, type' = cu ''application/pdf''\<rparr>"

definition afterSelection :: AppState where
  "afterSelection =
     handleFilesSelected 10485760 10
       [(bigPdf, 1700000000000), (examplePdf, 1700000000000)] emptyState"

definition afterTwins :: AppState where
  "afterTwins =
     handleFilesSelected 10485760 10
       [(examplePdf, 1700000000000), (bigTwin, 1700000000000)] emptyState"

definition codedMap :: GameProviderMap where
  "codedMap =
     [(cu ''book of ra'',
       \<lparr>provider = cu ''iSoftBet'', activatedInIms = Some (cu ''Yes''),
        portalLiveDate = Some (cu ''05/03/2024''), imsGameCode = Some (cu ''bor_1'')\<rparr>)]"

definition certWithCode :: "jsstring option \<Rightarrow> ProcessedFileData" where
  "certWithCode code =
     \<lparr>id' = cu ''cert.pdf-1'', pdfFileName = cu ''cert.pdf'', reportNumber = Some (cu ''R-1''),
      certificationDate = None, supplierRegistrationNumber = None,
      extractedInstances =
        [\<lparr>gameName = Some (cu ''Book of Ra''), gameCode = code,
          files = [\<lparr>name = cu ''game.dll'', md5 = Some (cu ''d41d''), sha1 = None\<rparr>]\<rparr>],
      status = Completed, errorMessage = None\<rparr>"

definition unresolvedFile :: ProcessedFileData where
  "unresolvedFile =
     \<lparr>id' = cu ''other.pdf-1'', pdfFileName = cu ''other.pdf'', reportNumber = Some (cu ''R-2''),
      certificationDate = None, supplierRegistrationNumber = None,
      extractedInstances = [unknownGame], status = Completed, errorMessage = None\<rparr>"

definition emptyCompleted :: ProcessedFileData where
  "emptyCompleted =
     \<lparr>id' = cu ''blank.pdf-1'', pdfFileName = cu ''blank.pdf'', reportNumber = Some (cu ''R-3''),
      certificationDate = None, supplierRegistrationNumber = None,
      extractedInstances = [], status = Completed, errorMessage = None\<rparr>"

section \<open>Evaluation on concrete inputs\<close>

lemmas js_eval =
  cu_def trim_def trimStart_def trimEnd_def is_ws_def toLowerCase_def lowerCU_def
  canonicalize_def startsWithCI_def startsWith_def endsWith_def matchCopy_def
  replaceVersion_def is_symbol_def replaceSymbols_def normalizeGameName_def
  cleanGameNameForDisplay_def orEmpty_def orNull_def truthy_def

section \<open>The displayed hash\<close>

lemma fullRow_hash_column:
  "\<exists>cells. length cells = 9
     \<and> fullRow hostLower hostDate m fileEntry i =
         join [9] (cells @ [formatListForClipboard (map getDisplayHash (files i))])"
proof -
  let ?key = "normalizeGameName hostLower (gameName i)"
  let ?info = "map_of m ?key"
  let ?cells =
    "[cleanGameNameForDisplay (gameName i),
      orEmpty (map_of (authoritativeImsCodeMap m) ?key), [],
      orEmpty (reportNumber fileEntry),
      (case ?info of None \<Rightarrow> [] | Some p \<Rightarrow> orEmpty (activatedInIms p)),
      formatDateToYyyyMmDd hostDate
        (case ?info of None \<Rightarrow> None | Some p \<Rightarrow> orNull (orEmpty (portalLiveDate p))),
      [], [], formatListForClipboard (map name (files i))]"
  have "length ?cells = 9" by simp
  moreover have "fullRow hostLower hostDate m fileEntry i =
      join [9] (?cells @ [formatListForClipboard (map getDisplayHash (files i))])"
    by (simp add: fullRow_def Let_def)
  ultimately show ?thesis by blast
qed

text \<open>
  Claim C9, as the code has it. The hash of a file detail is its \<open>md5\<close> when that is
  neither \<open>null\<close> nor the empty string, otherwise its \<open>sha1\<close> when that is not
  \<open>null\<close>, otherwise the empty string; so an \<open>md5\<close> that is there and not empty
  always wins over the \<open>sha1\<close>. The table on screen joins these hashes with a comma
  and a space, and the last of the ten cells of a row of the full table is the list of
  these hashes in the format of the clipboard.
\<close>

theorem getDisplayHash_precedence:
  "getDisplayHash f =
     (case md5 f of
        Some h \<Rightarrow> if h \<noteq> [] then h else (case sha1 f of Some s \<Rightarrow> s | None \<Rightarrow> [])
      | None \<Rightarrow> (case sha1 f of Some s \<Rightarrow> s | None \<Rightarrow> []))
   \<and> hashCell i = (if files i = [] then [] else join (cu '', '') (map getDisplayHash (files i)))
   \<and> (\<exists>cells. length cells = 9
        \<and> fullRow hostLower hostDate m fileEntry i =
            join [9] (cells @ [formatListForClipboard (map getDisplayHash (files i))]))"
  using fullRow_hash_column [of hostLower hostDate m fileEntry i]
  by (simp add: getDisplayHash_def hashCell_def truthy_def orEmpty_def split: option.splits)

text \<open>
  An \<open>md5\<close> that is the empty string is not \<open>null\<close>, and yet the hash is the
  \<open>sha1\<close>: the test of the code is \<open>if (file.md5)\<close>.
\<close>

theorem getDisplayHash_empty_md5_counterexample:
  "getDisplayHash \<lparr>name = cu ''game.dll'', md5 = Some [], sha1 = Some (cu ''abc'')\<rparr> = cu ''abc''"
  by (simp add: getDisplayHash_def truthy_def orEmpty_def)

section \<open>The archive export: the folders of a file\<close>

lemma zipInstance_folders:
  "set (snd (fold (zipInstance hostLower m orig) is acc)) = set (snd acc) \<union> zipFolderName hostLower m ` set is"
  by (induction "is" arbitrary: acc) (auto simp: zipInstance_def Let_def)

lemma zipInstance_stored:
  "(\<forall>f\<in>set (snd acc). map_of (fst acc) (f, name' orig) = Some orig) \<Longrightarrow>
   (\<forall>f\<in>set (snd (fold (zipInstance hostLower m orig) is acc)).
      map_of (fst (fold (zipInstance hostLower m orig) is acc)) (f, name' orig) = Some orig)"
proof (induction "is" arbitrary: acc)
  case Nil
  then show ?case by simp
next
  case (Cons i "is")
  have "\<forall>f\<in>set (snd (zipInstance hostLower m orig i acc)).
          map_of (fst (zipInstance hostLower m orig i acc)) (f, name' orig) = Some orig"
    using Cons.prems by (auto simp: zipInstance_def Let_def update_conv')
  then show ?case using Cons.IH by simp
qed

lemma zipInstance_distinct:
  "distinct (snd acc) \<Longrightarrow> distinct (snd (fold (zipInstance hostLower m orig) is acc))"
  by (induction "is" arbitrary: acc) (auto simp: zipInstance_def Let_def)

text \<open>
  Claim C2, as the code has it. The folder is chosen for each instance on its own: a
  completed file is stored once under the folder of every one of its instances, and an
  instance for which no provider resolves has the folder \<open>Uncategorized\<close>, whether or
  not other instances of the file resolve. The fallback after the loop applies only to
  a file without instances.
\<close>

theorem zipFile_folders:
  "set (snd (zipFile hostLower m orig pf z)) =
     (if extractedInstances pf = [] then {cu ''Uncategorized''}
      else zipFolderName hostLower m ` set (extractedInstances pf))
   \<and> distinct (snd (zipFile hostLower m orig pf z))
   \<and> (\<forall>folder\<in>set (snd (zipFile hostLower m orig pf z)).
         map_of (fst (zipFile hostLower m orig pf z)) (folder, name' orig) = Some orig)
   \<and> (\<forall>i. resolvedProviderName hostLower m i = None \<longrightarrow> zipFolderName hostLower m i = cu ''Uncategorized'')"
proof -
  let ?acc = "fold (zipInstance hostLower m orig) (extractedInstances pf) (z, [])"
  have s: "set (snd ?acc) = zipFolderName hostLower m ` set (extractedInstances pf)"
    by (simp add: zipInstance_folders)
  have d: "distinct (snd ?acc)"
    by (rule zipInstance_distinct) simp
  have st: "\<forall>f\<in>set (snd ?acc). map_of (fst ?acc) (f, name' orig) = Some orig"
    by (rule zipInstance_stored) simp
  have e: "snd ?acc = [] \<longleftrightarrow> extractedInstances pf = []"
    using s by (metis image_is_empty set_empty)
  have u: "sanitizeFolderName (cu ''Uncategorized'') = cu ''Uncategorized''"
    by (simp add: sanitizeFolderName_def cu_def)
  show ?thesis
    using s d st e u by (auto simp: zipFile_def Let_def update_conv' zipFolderName_def)
qed

theorem zipFile_folders_witness:
  "set (snd (zipFile exampleLower exampleMap examplePdf mixedFile [])) =
      {cu ''Novomatic'', cu ''Uncategorized''}
   \<and> map_of (fst (zipFile exampleLower exampleMap examplePdf mixedFile []))
        (cu ''Uncategorized'', cu ''cert.pdf'') = Some examplePdf
   \<and> zipFolderName exampleLower exampleMap unknownGame = cu ''Uncategorized''"
proof -
  have k: "zipFolderName exampleLower exampleMap knownGame = cu ''Novomatic''"
    by (simp add: zipFolderName_def resolvedProviderName_def exampleMap_def knownGame_def
        sanitizeFolderName_def js_eval)
  have r: "resolvedProviderName exampleLower exampleMap unknownGame = None"
    by (simp add: resolvedProviderName_def exampleMap_def unknownGame_def js_eval)
  have n: "name' examplePdf = cu ''cert.pdf''"
    by (simp add: examplePdf_def)
  from zipFile_folders [of exampleLower exampleMap examplePdf mixedFile "[]"] r
  have u: "zipFolderName exampleLower exampleMap unknownGame = cu ''Uncategorized''"
    and s: "set (snd (zipFile exampleLower exampleMap examplePdf mixedFile [])) =
        (if extractedInstances mixedFile = [] then {cu ''Uncategorized''}
         else zipFolderName exampleLower exampleMap ` set (extractedInstances mixedFile))"
    and st: "\<forall>folder\<in>set (snd (zipFile exampleLower exampleMap examplePdf mixedFile [])).
         map_of (fst (zipFile exampleLower exampleMap examplePdf mixedFile [])) (folder, name' examplePdf)
           = Some examplePdf"
    by blast+
  from s k u have s': "set (snd (zipFile exampleLower exampleMap examplePdf mixedFile [])) =
      {cu ''Novomatic'', cu ''Uncategorized''}"
    by (simp add: mixedFile_def)
  with st n show ?thesis using u by simp
qed

text \<open>
  A file with one instance that resolves by its name and one that resolves to nothing
  is stored under the provider's folder and under \<open>Uncategorized\<close> as well.
\<close>

theorem zipFile_mixed_counterexample:
  "resolvedProviderName exampleLower exampleMap knownGame = Some (cu ''Novomatic'')
   \<and> resolvedProviderName exampleLower exampleMap unknownGame = None
   \<and> snd (zipFile exampleLower exampleMap examplePdf mixedFile []) = [cu ''Novomatic'', cu ''Uncategorized'']
   \<and> fst (handleExportZip exampleLower mixedState) =
       Some [((cu ''Novomatic'', cu ''cert.pdf''), examplePdf),
             ((cu ''Uncategorized'', cu ''cert.pdf''), examplePdf)]"
proof -
  have f: "zipFolderName exampleLower exampleMap knownGame = cu ''Novomatic''"
    "zipFolderName exampleLower exampleMap unknownGame = cu ''Uncategorized''"
    by (simp_all add: zipFolderName_def resolvedProviderName_def exampleMap_def knownGame_def
        unknownGame_def sanitizeFolderName_def js_eval Let_def)
  have r: "resolvedProviderName exampleLower exampleMap knownGame = Some (cu ''Novomatic'')"
    "resolvedProviderName exampleLower exampleMap unknownGame = None"
    by (simp_all add: resolvedProviderName_def exampleMap_def knownGame_def unknownGame_def
        js_eval Let_def)
  have z: "zipFile exampleLower exampleMap examplePdf mixedFile [] =
      ([((cu ''Novomatic'', cu ''cert.pdf''), examplePdf),
        ((cu ''Uncategorized'', cu ''cert.pdf''), examplePdf)],
       [cu ''Novomatic'', cu ''Uncategorized''])"
    by (simp add: zipFile_def zipInstance_def f mixedFile_def Let_def)
       (simp add: examplePdf_def cu_def)
  have m: "exampleMap \<noteq> []" by (simp add: exampleMap_def)
  have "fst (handleExportZip exampleLower mixedState) =
       Some [((cu ''Novomatic'', cu ''cert.pdf''), examplePdf),
             ((cu ''Uncategorized'', cu ''cert.pdf''), examplePdf)]"
    by (simp add: handleExportZip_def mixedState_def zipStep_def z m Let_def)
       (simp add: mixedFile_def)
  with r z show ?thesis by simp
qed

section \<open>The header line of the reference table\<close>

lemma split_not_Nil: "split d s \<noteq> []"
  by (induction s) (auto split: list.splits)

lemma split_no_sep: "d \<notin> set l \<Longrightarrow> split d l = [l]"
  by (induction l) auto

lemma split_append_sep: "d \<notin> set l \<Longrightarrow> split d (l @ d # rest) = l # split d rest"
  by (induction l) auto

lemma split_hd_prefix: "\<exists>post. l = hd (split d l) @ post"
proof (induction l)
  case Nil
  show ?case by simp
next
  case (Cons c cs)
  then obtain post where "cs = hd (split d cs) @ post" by blast
  then have "c # cs = (c # hd (split d cs)) @ post" by simp
  then show ?case
    by (cases "split d cs") (auto simp: split_not_Nil)
qed

lemma split_field_decomp: "f \<in> set (split d l) \<Longrightarrow> \<exists>pre post. l = pre @ f @ post"
proof (induction l arbitrary: f)
  case Nil
  then show ?case by simp
next
  case (Cons c cs)
  show ?case
  proof (cases "c = d")
    case True
    with Cons.prems have "f = [] \<or> f \<in> set (split d cs)" by simp
    then show ?thesis
    proof
      assume "f = []"
      then have "c # cs = [] @ f @ (c # cs)" by simp
      then show ?thesis by blast
    next
      assume "f \<in> set (split d cs)"
      then obtain pre post where "cs = pre @ f @ post" using Cons.IH by blast
      then have "c # cs = (c # pre) @ f @ post" by simp
      then show ?thesis by blast
    qed
  next
    case False
    obtain x xs where x: "split d cs = x # xs"
      using split_not_Nil [of d cs] by (cases "split d cs") auto
    with False Cons.prems have "f = c # x \<or> f \<in> set xs" by simp
    then show ?thesis
    proof
      assume f: "f = c # x"
      obtain post where "cs = hd (split d cs) @ post" using split_hd_prefix by blast
      with x have "c # cs = [] @ (c # x) @ post" by simp
      with f show ?thesis by blast
    next
      assume "f \<in> set xs"
      with x have "f \<in> set (split d cs)" by simp
      then obtain pre post where "cs = pre @ f @ post" using Cons.IH by blast
      then have "c # cs = (c # pre) @ f @ post" by simp
      then show ?thesis by blast
    qed
  qed
qed

lemma startsWith_append: "startsWith s p \<Longrightarrow> startsWith (s @ t) p"
proof -
  assume a: "startsWith s p"
  then have "length (take (length p) s) = length p" by (simp add: startsWith_def)
  then have "length p \<le> length s" by simp
  with a show ?thesis by (simp add: startsWith_def)
qed

lemma includesStr_append: "includesStr s p \<Longrightarrow> includesStr (s @ t) p"
proof (induction s)
  case Nil
  then show ?case by (cases t) (simp_all add: startsWith_def)
next
  case (Cons c s)
  show ?case
  proof (cases "startsWith (c # s) p")
    case True
    then have "startsWith ((c # s) @ t) p" by (rule startsWith_append)
    then show ?thesis by simp
  next
    case False
    with Cons show ?thesis by simp
  qed
qed

lemma includesStr_prepend: "includesStr s p \<Longrightarrow> includesStr (a @ s) p"
  by (induction a) simp_all

lemma includesStr_field:
  assumes "f \<in> set (split d l)" "list_all (\<lambda>c. c < 256) l"
    and "includesStr (toLowerCase hostLower f) p"
  shows "includesStr (toLowerCase hostLower l) p"
proof -
  obtain pre post where l: "l = pre @ f @ post"
    using split_field_decomp [OF assms(1)] by blast
  with assms(2) have "list_all (\<lambda>c. c < 256) f" by simp
  then have "toLowerCase hostLower f = map lowerCU f"
    by (simp add: toLowerCase_def)
  moreover have "toLowerCase hostLower l = map lowerCU pre @ map lowerCU f @ map lowerCU post"
    using assms(2) l by (simp add: toLowerCase_def)
  ultimately show ?thesis
    using assms(3) by (simp add: includesStr_append includesStr_prepend)
qed

text \<open>
  Claim C3, as the code has it. The first line is a header, and is skipped, exactly
  when the line as a whole contains \<open>game provider\<close> in any letter case; a first
  line without it is parsed as a data line. The line contains the words as soon as one
  of its fields does, the first or a later one (stated for the lines of code units below
  U+0100, on which lowercasing is written out and not left to the host).
\<close>

theorem parseProviderData_header:
  assumes "10 \<notin> set l"
  shows "parseProviderData hostLower (l @ 10 # rest) =
           (if includesStr (toLowerCase hostLower l) (cu ''game provider'')
            then fold (addProviderLine hostLower) (split 10 rest) []
            else fold (addProviderLine hostLower) (l # split 10 rest) [])
         \<and> parseProviderData hostLower l =
           (if includesStr (toLowerCase hostLower l) (cu ''game provider'') then []
            else addProviderLine hostLower l [])
         \<and> (list_all (\<lambda>c. c < 256) l \<longrightarrow>
              (\<forall>f\<in>set (split 9 l).
                 includesStr (toLowerCase hostLower f) (cu ''game provider'')
                 \<longrightarrow> includesStr (toLowerCase hostLower l) (cu ''game provider'')))"
proof -
  have g: "l = [] \<Longrightarrow> \<not> includesStr (toLowerCase hostLower l) (cu ''game provider'')"
    by (simp add: toLowerCase_def cu_def)
  have "parseProviderData hostLower (l @ 10 # rest) =
           (if includesStr (toLowerCase hostLower l) (cu ''game provider'')
            then fold (addProviderLine hostLower) (split 10 rest) []
            else fold (addProviderLine hostLower) (l # split 10 rest) [])"
    using assms g by (auto simp: parseProviderData_def dataLines_def split_append_sep)
  moreover have "parseProviderData hostLower l =
           (if includesStr (toLowerCase hostLower l) (cu ''game provider'') then []
            else addProviderLine hostLower l [])"
    using assms g by (auto simp: parseProviderData_def dataLines_def split_no_sep)
  moreover have "list_all (\<lambda>c. c < 256) l \<longrightarrow>
     (\<forall>f\<in>set (split 9 l).
        includesStr (toLowerCase hostLower f) (cu ''game provider'')
        \<longrightarrow> includesStr (toLowerCase hostLower l) (cu ''game provider''))"
    using includesStr_field by blast
  ultimately show ?thesis by simp
qed

lemma header_fields:
  "split 9 headerLine =
     [cu ''Name'', cu ''Game Provider'', cu ''Activated in IMS'', cu ''Portal Live Date'',
      cu ''Notes'', cu ''IMS Game Code'']"
  by (simp add: headerLine_def cu_def)

lemma header_includes: "includesStr (toLowerCase hostLower headerLine) (cu ''game provider'')"
  by (simp add: headerLine_def js_eval)

lemma header_as_data: "map fst (addProviderLine hostLower headerLine []) = [cu ''name'']"
  by (simp add: addProviderLine_def header_fields Let_def) (simp add: js_eval Let_def)

text \<open>
  The header of the export names the provider in its second column. Its first field
  \<open>Name\<close> lacks the words, and the line is skipped all the same; parsed as a data
  line it would have given an entry for the key \<open>name\<close>.
\<close>

theorem parseProviderData_header_counterexample:
  "hd (split 9 headerLine) = cu ''Name''
   \<and> \<not> includesStr (toLowerCase exampleLower (cu ''Name'')) (cu ''game provider'')
   \<and> parseProviderData exampleLower headerLine = []
   \<and> map fst (fold (addProviderLine exampleLower) [headerLine] []) = [cu ''name'']"
proof -
  have "10 \<notin> set headerLine" by (simp add: headerLine_def cu_def)
  moreover have "headerLine \<noteq> []" by (simp add: headerLine_def cu_def)
  ultimately have "parseProviderData exampleLower headerLine = []"
    using header_includes by (simp add: parseProviderData_def dataLines_def split_no_sep)
  moreover have "\<not> includesStr (toLowerCase exampleLower (cu ''Name'')) (cu ''game provider'')"
    by (simp add: js_eval)
  ultimately show ?thesis
    by (simp add: header_fields header_as_data)
qed

theorem parseProviderData_header_witness:
  "10 \<notin> set headerLine
   \<and> map fst (parseProviderData exampleLower (headerLine @ 10 # dataLine)) = [cu ''book of ra'']"
proof -
  have n: "10 \<notin> set headerLine" by (simp add: headerLine_def cu_def)
  have d: "split 10 dataLine = [dataLine]"
    by (rule split_no_sep) (simp add: dataLine_def cu_def)
  have f: "split 9 dataLine =
     [cu ''Book of Ra'', cu ''Novomatic'', cu ''Yes'', cu ''05/03/2024'', cu ''-'', cu ''bor_1'']"
    by (simp add: dataLine_def cu_def)
  have a: "map fst (addProviderLine exampleLower dataLine []) = [cu ''book of ra'']"
    by (simp add: addProviderLine_def f Let_def) (simp add: js_eval Let_def)
  from parseProviderData_header [OF n, of exampleLower dataLine] header_includes d a n
  show ?thesis by simp
qed

section \<open>The normalizer applied twice\<close>

subsection \<open>Trimming\<close>

lemma trimEnd_decomp: "\<exists>t. s = trimEnd s @ t \<and> (\<forall>c\<in>set t. is_ws c)"
proof -
  have "rev s = takeWhile is_ws (rev s) @ dropWhile is_ws (rev s)" by simp
  then have "s = rev (dropWhile is_ws (rev s)) @ rev (takeWhile is_ws (rev s))"
    by (metis rev_append rev_rev_ident)
  moreover have "\<forall>c\<in>set (rev (takeWhile is_ws (rev s))). is_ws c"
    by (auto dest: set_takeWhileD)
  ultimately show ?thesis unfolding trimEnd_def by blast
qed

lemma trimEnd_append:
  assumes "xs \<noteq> []" "\<not> is_ws (last xs)"
  shows "trimEnd (xs @ ys) = xs @ trimEnd ys"
proof -
  have "dropWhile is_ws (rev xs) = rev xs"
    using assms by (cases "rev xs") (auto simp: last_rev [symmetric] simp del: last_rev)
  then show ?thesis
    by (auto simp: trimEnd_def dropWhile_append)
qed

lemma trimEnd_Nil: "trimEnd [] = []"
  by (simp add: trimEnd_def)

lemma trimEnd_id: "s = [] \<or> \<not> is_ws (last s) \<Longrightarrow> trimEnd s = s"
proof (cases "s = []")
  case True
  then show ?thesis by (simp add: trimEnd_Nil)
next
  case False
  assume "s = [] \<or> \<not> is_ws (last s)"
  with False have "\<not> is_ws (last s)" by simp
  with False show ?thesis using trimEnd_append [of s "[]"] by (simp add: trimEnd_Nil)
qed

lemma trimStart_id: "s = [] \<or> \<not> is_ws (hd s) \<Longrightarrow> trimStart s = s"
  by (cases s) (auto simp: trimStart_def)

lemma trimEnd_last: "trimEnd s \<noteq> [] \<Longrightarrow> \<not> is_ws (last (trimEnd s))"
  unfolding trimEnd_def using hd_dropWhile [of is_ws "rev s"] by (simp add: last_rev)

lemma trimEnd_hd: "trimEnd s \<noteq> [] \<Longrightarrow> hd (trimEnd s) = hd s"
  using trimEnd_decomp [of s] by (metis hd_append2)

lemma trimStart_hd: "trimStart s \<noteq> [] \<Longrightarrow> \<not> is_ws (hd (trimStart s))"
  unfolding trimStart_def by (rule hd_dropWhile)

lemma trim_trimmed: "trim s = [] \<or> (\<not> is_ws (hd (trim s)) \<and> \<not> is_ws (last (trim s)))"
proof (cases "trim s = []")
  case True
  then show ?thesis by simp
next
  case False
  then have e: "trimEnd (trimStart s) \<noteq> []" by (simp add: trim_def)
  then have "trimStart s \<noteq> []" by (auto simp: trimEnd_Nil)
  then have "\<not> is_ws (hd (trimStart s))" by (rule trimStart_hd)
  with e have "\<not> is_ws (hd (trim s))" by (simp add: trim_def trimEnd_hd)
  moreover from e have "\<not> is_ws (last (trim s))" by (simp add: trim_def trimEnd_last)
  ultimately show ?thesis by simp
qed

lemma trim_id: "s = [] \<or> (\<not> is_ws (hd s) \<and> \<not> is_ws (last s)) \<Longrightarrow> trim s = s"
  unfolding trim_def using trimStart_id [of s] trimEnd_id [of s] by auto

lemma trim_idem: "trim (trim s) = trim s"
  using trim_trimmed [of s] by (intro trim_id) auto

lemma set_trimEnd: "set (trimEnd s) \<subseteq> set s"
  unfolding trimEnd_def by (auto dest: set_dropWhileD)

lemma set_trim: "set (trim s) \<subseteq> set s"
  unfolding trim_def trimStart_def using set_trimEnd by (fastforce dest: set_dropWhileD)

subsection \<open>Collapsed white space\<close>

lemma replaceWhitespace_hd:
  "s \<noteq> [] \<Longrightarrow> \<not> is_ws (hd s) \<Longrightarrow> replaceWhitespace s \<noteq> [] \<and> hd (replaceWhitespace s) = hd s"
  by (cases s) auto

lemma collapsed_replaceWhitespace: "collapsed (replaceWhitespace s)"
proof (induction s rule: replaceWhitespace.induct)
  case 1
  show ?case by simp
next
  case (2 c cs)
  show ?case
  proof (cases "is_ws c")
    case True
    let ?r = "dropWhile is_ws cs"
    have "case replaceWhitespace ?r of [] \<Rightarrow> True | d # _ \<Rightarrow> \<not> is_ws d"
    proof (cases ?r)
      case Nil
      have "replaceWhitespace ?r = []" unfolding Nil by simp
      then show ?thesis by (simp only: list.case)
    next
      case (Cons d ds)
      then have "\<not> is_ws d" using hd_dropWhile [of is_ws cs] by simp
      then have "replaceWhitespace ?r = d # replaceWhitespace ds" unfolding Cons by simp
      with \<open>\<not> is_ws d\<close> show ?thesis by (simp only: list.case simp_thms)
    qed
    with True 2 show ?thesis by simp
  next
    case False
    with 2 show ?thesis by simp
  qed
qed

lemma collapsed_fixed: "collapsed s \<Longrightarrow> replaceWhitespace s = s"
proof (induction s)
  case Nil
  show ?case by simp
next
  case (Cons c cs)
  then show ?case by (cases cs) auto
qed

lemma collapsed_dropWhile: "collapsed s \<Longrightarrow> collapsed (dropWhile Q s)"
  by (induction s) auto

lemma collapsed_prefix: "collapsed (xs @ ys) \<Longrightarrow> collapsed xs"
proof (induction xs)
  case Nil
  show ?case by simp
next
  case (Cons c xs)
  then show ?case by (cases xs) auto
qed

lemma collapsed_trim: "collapsed s \<Longrightarrow> collapsed (trim s)"
proof -
  assume "collapsed s"
  then have c: "collapsed (trimStart s)" unfolding trimStart_def by (rule collapsed_dropWhile)
  obtain t where "trimStart s = trimEnd (trimStart s) @ t"
    using trimEnd_decomp [of "trimStart s"] by blast
  with c show ?thesis unfolding trim_def by (metis collapsed_prefix)
qed

lemma set_replaceWhitespace: "set (replaceWhitespace s) \<subseteq> insert 32 (set s)"
proof (induction s rule: replaceWhitespace.induct)
  case 1
  show ?case by simp
next
  case (2 c cs)
  show ?case
  proof (cases "is_ws c")
    case True
    with 2 have "set (replaceWhitespace (dropWhile is_ws cs)) \<subseteq> insert 32 (set (dropWhile is_ws cs))"
      by simp
    moreover have "set (dropWhile is_ws cs) \<subseteq> set cs" by (auto dest: set_dropWhileD)
    ultimately show ?thesis using True by auto
  next
    case False
    with 2 show ?thesis by auto
  qed
qed


subsection \<open>The normal form\<close>

lemma lowerCU_space: "lowerCU 32 = 32" "\<not> is_symbol 32"
  by (simp_all add: lowerCU_def is_symbol_def)

lemma normal_chars:
  assumes "c \<in> set (trim (replaceWhitespace (replaceSymbols z)))"
  shows "\<not> is_symbol c \<and> (c = 32 \<or> c \<in> set z)"
proof -
  from assms have "c \<in> insert 32 (set (replaceSymbols z))"
    using set_trim set_replaceWhitespace by blast
  then show ?thesis
    by (auto simp: lowerCU_space replaceSymbols_def)
qed

lemma normal_fixed:
  assumes y: "y = trim (replaceWhitespace (replaceSymbols z))"
    and c: "replaceCopy y = y" and v: "replaceVersion y = y"
    and l: "toLowerCase hostLower y = y"
  shows "normalizeGameName hostLower (Some y) = y"
proof -
  have t: "trim y = y" unfolding y by (rule trim_idem)
  have s: "replaceSymbols y = y"
    unfolding replaceSymbols_def using normal_chars [of _ z] y by (simp add: filter_id_conv)
  have "collapsed y"
    unfolding y by (intro collapsed_trim collapsed_replaceWhitespace)
  then have w: "replaceWhitespace y = y" by (rule collapsed_fixed)
  show ?thesis
    by (simp add: normalizeGameName_def t c v l s w)
qed

subsection \<open>Names of code units below U+0100\<close>

lemma set_replaceCopy: "set (replaceCopy s) \<subseteq> set s"
proof (induction s)
  case Nil
  show ?case by simp
next
  case (Cons c cs)
  show ?case
  proof (cases "matchCopy (c # cs)")
    case None
    with Cons show ?thesis by auto
  next
    case (Some rest)
    then have "rest = drop 6 (dropWhile is_ws (c # cs))"
      by (simp add: matchCopy_def Let_def split: if_splits)
    then have "set rest \<subseteq> set (c # cs)"
      using set_drop_subset set_dropWhileD by fastforce
    with Some show ?thesis by simp
  qed
qed

lemma set_replaceVersion: "set (replaceVersion s) \<subseteq> set s"
proof -
  have "set (trimEnd (take (length s - 3) s)) \<subseteq> set s"
    using set_trimEnd set_take_subset by fastforce
  then show ?thesis by (simp add: replaceVersion_def Let_def)
qed

lemma lowerCU_latin1: "c < 256 \<Longrightarrow> lowerCU c < 256 \<and> lowerCU (lowerCU c) = lowerCU c"
  by (simp add: lowerCU_def)

lemma latin1_lowered:
  assumes "list_all (\<lambda>c. c < 256) n"
  shows "toLowerCase hostLower (normalizeGameName hostLower (Some n))
           = normalizeGameName hostLower (Some n)"
proof (cases "n = []")
  case True
  then show ?thesis by (simp add: normalizeGameName_def toLowerCase_def)
next
  case False
  let ?v = "replaceVersion (replaceCopy (trim n))"
  let ?y = "trim (replaceWhitespace (replaceSymbols (map lowerCU ?v)))"
  have "set ?v \<subseteq> set n"
    using set_replaceVersion set_replaceCopy set_trim by blast
  with assms have v: "\<forall>c\<in>set ?v. c < 256" by (auto simp: list_all_iff)
  then have "toLowerCase hostLower ?v = map lowerCU ?v"
    by (simp add: toLowerCase_def list_all_iff)
  with False have n: "normalizeGameName hostLower (Some n) = ?y"
    by (simp add: normalizeGameName_def)
  have c: "c < 256 \<and> lowerCU c = c" if "c \<in> set ?y" for c
  proof -
    from that have "c = 32 \<or> c \<in> set (map lowerCU ?v)"
      using normal_chars by blast
    then show ?thesis
      using v lowerCU_latin1 by (auto simp: lowerCU_space)
  qed
  then have "list_all (\<lambda>c. c < 256) ?y" by (simp add: list_all_iff)
  then have "toLowerCase hostLower ?y = map lowerCU ?y" by (simp add: toLowerCase_def)
  also have "\<dots> = ?y" using c by (intro map_idI) simp
  finally show ?thesis using n by simp
qed

text \<open>
  Claim C1, as the code has it. The normalizer removes one \<open>(copy)\<close> and one
  version suffix, the ones of its input, and it strips the symbols after it has
  lowercased. Where its result has neither a copy mark nor a version suffix left (the
  two removals leave the result as it is) and is in lower case (lowercasing leaves the
  result as it is, which is so of every name of code units below U+0100), normalizing
  the result again changes nothing. \<open>null\<close> and the empty string normalize to the
  empty string.
\<close>

theorem normalizeGameName_idempotent:
  assumes "replaceCopy (normalizeGameName hostLower x) = normalizeGameName hostLower x"
    and "replaceVersion (normalizeGameName hostLower x) = normalizeGameName hostLower x"
    and "list_all (\<lambda>c. c < 256) (orEmpty x)
         \<or> toLowerCase hostLower (normalizeGameName hostLower x) = normalizeGameName hostLower x"
  shows "normalizeGameName hostLower (Some (normalizeGameName hostLower x)) = normalizeGameName hostLower x
         \<and> normalizeGameName hostLower None = [] \<and> normalizeGameName hostLower (Some []) = []"
proof -
  have e: "normalizeGameName hostLower None = []" "normalizeGameName hostLower (Some []) = []"
    by (simp_all add: normalizeGameName_def)
  have "normalizeGameName hostLower (Some (normalizeGameName hostLower x)) = normalizeGameName hostLower x"
  proof (cases x)
    case None
    then show ?thesis by (simp add: e)
  next
    case (Some n)
    show ?thesis
    proof (cases "n = []")
      case True
      with Some show ?thesis by (simp add: e)
    next
      case False
      from Some assms(3)
      have l: "toLowerCase hostLower (normalizeGameName hostLower x) = normalizeGameName hostLower x"
        using latin1_lowered [of n hostLower] by (auto simp: orEmpty_def)
      from False Some have "normalizeGameName hostLower x =
          trim (replaceWhitespace (replaceSymbols (toLowerCase hostLower
            (replaceVersion (replaceCopy (trim n))))))"
        by (simp add: normalizeGameName_def)
      then show ?thesis using assms(1,2) l by (rule normal_fixed)
    qed
  qed
  with e show ?thesis by simp
qed

lemma normalize_example:
  "normalizeGameName hostLower (Some (cu ''Book of Ra (copy)'')) = cu ''book of ra''"
  by (simp add: js_eval)

lemma replace_example:
  "replaceCopy (cu ''book of ra'') = cu ''book of ra''"
  "replaceVersion (cu ''book of ra'') = cu ''book of ra''"
  by (simp_all add: js_eval)

theorem normalizeGameName_idempotent_witness:
  "replaceCopy (normalizeGameName exampleLower (Some (cu ''Book of Ra (copy)'')))
     = normalizeGameName exampleLower (Some (cu ''Book of Ra (copy)''))
   \<and> replaceVersion (normalizeGameName exampleLower (Some (cu ''Book of Ra (copy)'')))
     = normalizeGameName exampleLower (Some (cu ''Book of Ra (copy)''))
   \<and> list_all (\<lambda>c. c < 256) (orEmpty (Some (cu ''Book of Ra (copy)'')))
   \<and> toLowerCase exampleLower (normalizeGameName exampleLower (Some (cu ''Book of Ra (copy)'')))
     = normalizeGameName exampleLower (Some (cu ''Book of Ra (copy)''))
   \<and> normalizeGameName exampleLower (Some (normalizeGameName exampleLower (Some (cu ''Book of Ra (copy)''))))
     = cu ''book of ra''"
proof -
  have l: "list_all (\<lambda>c. c < 256) (orEmpty (Some (cu ''Book of Ra (copy)'')))"
    by (simp add: orEmpty_def cu_def)
  have t: "toLowerCase exampleLower (cu ''book of ra'') = cu ''book of ra''"
    by (simp add: js_eval)
  from normalizeGameName_idempotent [of exampleLower "Some (cu ''Book of Ra (copy)'')"] l t
  show ?thesis by (simp add: normalize_example replace_example)
qed

text \<open>
  A name with two copy marks loses one of them in each pass: the normalizer is not
  idempotent.
\<close>

theorem normalizeGameName_idempotent_counterexample:
  "normalizeGameName exampleLower (Some (normalizeGameName exampleLower (Some (cu ''a (copy) (copy)''))))
     \<noteq> normalizeGameName exampleLower (Some (cu ''a (copy) (copy)''))"
proof -
  have 1: "normalizeGameName exampleLower (Some (cu ''a (copy) (copy)'')) = cu ''a (copy)''"
    by (simp add: js_eval)
  have 2: "normalizeGameName exampleLower (Some (cu ''a (copy)'')) = cu ''a''"
    by (simp add: js_eval)
  show ?thesis by (simp add: 1 2) (simp add: cu_def)
qed

section \<open>Removing the copy mark\<close>

lemma startsWithCI_append: "startsWithCI s p \<Longrightarrow> startsWithCI (s @ t) p"
  by (auto simp: startsWithCI_def)

lemma startsWithCI_includes: "startsWithCI s p \<Longrightarrow> includesCI s p"
  by (cases s) (auto simp: startsWithCI_def)

lemma includesCI_append: "includesCI s p \<Longrightarrow> includesCI (s @ t) p"
proof (induction s)
  case Nil
  then have "startsWithCI t p" by (simp add: startsWithCI_def)
  then show ?case by (simp add: startsWithCI_includes)
next
  case (Cons c s)
  show ?case
  proof (cases "startsWithCI (c # s) p")
    case True
    then have "startsWithCI ((c # s) @ t) p" by (rule startsWithCI_append)
    then show ?thesis by simp
  next
    case False
    with Cons show ?thesis by simp
  qed
qed

lemma includesCI_dropWhile: "includesCI (dropWhile Q s) p \<Longrightarrow> includesCI s p"
  by (induction s) (auto split: if_splits)

lemma matchCopy_includes: "matchCopy s = Some r \<Longrightarrow> includesCI s (cu ''(copy)'')"
proof -
  assume "matchCopy s = Some r"
  then have "startsWithCI (dropWhile is_ws s) (cu ''(copy)'')"
    by (simp add: matchCopy_def Let_def split: if_splits)
  then have "includesCI (dropWhile is_ws s) (cu ''(copy)'')"
    by (rule startsWithCI_includes)
  then show ?thesis by (rule includesCI_dropWhile)
qed

lemma replaceCopy_none: "\<not> includesCI s (cu ''(copy)'') \<Longrightarrow> replaceCopy s = s"
proof (induction s)
  case Nil
  show ?case by simp
next
  case (Cons c cs)
  then have "matchCopy (c # cs) = None"
    using matchCopy_includes [of "c # cs"] by (cases "matchCopy (c # cs)") auto
  moreover from Cons have "replaceCopy cs = cs" by simp
  ultimately show ?case by simp
qed

lemma startsWithCI_nth:
  assumes "startsWithCI u p" "i < length p"
  shows "canonicalize (u ! i) = canonicalize (p ! i)"
proof -
  from assms(1) have l: "length p \<le> length u"
    and m: "map canonicalize (take (length p) u) = map canonicalize p"
    by (simp_all add: startsWithCI_def)
  from assms(2) l have "map canonicalize (take (length p) u) ! i = canonicalize (u ! i)"
    by simp
  moreover from assms(2) have "map canonicalize p ! i = canonicalize (p ! i)" by simp
  ultimately show ?thesis using m by simp
qed

lemma copy_nth:
  "i \<in> {1, 2, 3, 4, 5} \<Longrightarrow> canonicalize (cu ''(copy)'' ! i) \<in> {67, 79, 80, 89, 41}"
  by (auto simp: cu_def canonicalize_def)

lemma blocks_canonicalize: "blocks c \<Longrightarrow> canonicalize c \<notin> {67, 79, 80, 89, 41}"
  by (auto simp: blocks_def is_ws_def canonicalize_def)

lemma blocked:
  assumes "blocks c" "s \<noteq> []" "length s < 6"
  shows "\<not> startsWithCI (s @ c # t) (cu ''(copy)'')"
proof
  assume a: "startsWithCI (s @ c # t) (cu ''(copy)'')"
  from assms(2) have "0 < length s" by simp
  with assms(3) have "length s = 1 \<or> length s = 2 \<or> length s = 3 \<or> length s = 4 \<or> length s = 5"
    by arith
  then have i: "length s \<in> {1, 2, 3, 4, 5}" by simp
  then have "length s < length (cu ''(copy)'')" by (auto simp: cu_def)
  with a have "canonicalize ((s @ c # t) ! length s) = canonicalize (cu ''(copy)'' ! length s)"
    by (rule startsWithCI_nth)
  then have "canonicalize c \<in> {67, 79, 80, 89, 41}"
    using copy_nth [OF i] by simp
  with assms(1) show False using blocks_canonicalize by blast
qed

lemma matchCopy_blocked:
  assumes "\<not> includesCI a (cu ''(copy)'')" "a \<noteq> []" "\<not> is_ws (last a)" "blocks c"
  shows "matchCopy (a @ c # t) = None"
proof -
  let ?s = "dropWhile is_ws a"
  have "last a \<in> set a" using assms(2) by simp
  then have d: "dropWhile is_ws (a @ c # t) = ?s @ c # t"
    using assms(3) by (rule dropWhile_append1)
  have ne: "?s \<noteq> []"
    using assms(2,3) \<open>last a \<in> set a\<close> by (auto simp: dropWhile_eq_Nil_conv)
  have "\<not> startsWithCI (?s @ c # t) (cu ''(copy)'')"
  proof (cases "length ?s < 6")
    case True
    with assms(4) ne show ?thesis by (intro blocked)
  next
    case False
    have "\<not> startsWithCI ?s (cu ''(copy)'')"
    proof
      assume "startsWithCI ?s (cu ''(copy)'')"
      then have "includesCI ?s (cu ''(copy)'')" by (rule startsWithCI_includes)
      then have "includesCI a (cu ''(copy)'')" by (rule includesCI_dropWhile)
      with assms(1) show False by simp
    qed
    moreover have "length (cu ''(copy)'') = 6" by (simp add: cu_def)
    ultimately show ?thesis using False by (simp add: startsWithCI_def)
  qed
  with d show ?thesis by (simp add: matchCopy_def)
qed

lemma replaceCopy_skip:
  assumes "\<not> includesCI a (cu ''(copy)'')" "a \<noteq> []" "\<not> is_ws (last a)" "blocks c"
  shows "replaceCopy (a @ c # t) = a @ replaceCopy (c # t)"
  using assms
proof (induction a)
  case Nil
  then show ?case by simp
next
  case (Cons x a)
  have m: "matchCopy ((x # a) @ c # t) = None"
    using Cons.prems by (rule matchCopy_blocked)
  show ?case
  proof (cases "a = []")
    case True
    with m show ?thesis by simp
  next
    case False
    with Cons have "replaceCopy (a @ c # t) = a @ replaceCopy (c # t)" by auto
    with m show ?thesis by simp
  qed
qed

lemma copy_ends:
  assumes "map canonicalize p = map canonicalize (cu ''(copy)'')"
  shows "length p = 6" "hd p = 40" "last p = 41"
proof -
  from assms have "length (map canonicalize p) = length (map canonicalize (cu ''(copy)''))"
    by simp
  then show l: "length p = 6" by (simp add: cu_def)
  then obtain c0 c1 c2 c3 c4 c5 where p: "p = [c0, c1, c2, c3, c4, c5]"
    by (auto simp: length_Suc_conv eval_nat_numeral)
  with assms have "canonicalize c0 = 40" "canonicalize c5 = 41"
    by (simp_all add: cu_def canonicalize_def)
  then have "c0 = 40" "c5 = 41"
    by (auto simp: canonicalize_def split: if_splits)
  with p show "hd p = 40" "last p = 41" by simp_all
qed

lemma matchCopy_here:
  assumes "\<forall>c\<in>set w. is_ws c" "map canonicalize p = map canonicalize (cu ''(copy)'')"
  shows "matchCopy (w @ p @ r) = Some r"
proof -
  note e = copy_ends [OF assms(2)]
  from e(1) have ne: "p \<noteq> []" by auto
  have "\<not> is_ws (hd p)" by (simp add: e(2) is_ws_def)
  with ne have "dropWhile is_ws (p @ r) = p @ r" by (cases p) auto
  with assms(1) have d: "dropWhile is_ws (w @ p @ r) = p @ r"
    by (simp add: dropWhile_append2)
  have "startsWithCI (p @ r) (cu ''(copy)'')"
    using assms(2) e(1) by (simp add: startsWithCI_def cu_def)
  with d e(1) show ?thesis by (simp add: matchCopy_def)
qed

lemma replaceCopy_here:
  assumes "\<forall>c\<in>set w. is_ws c" "map canonicalize p = map canonicalize (cu ''(copy)'')"
  shows "replaceCopy (w @ p @ r) = r"
proof -
  from copy_ends(1) [OF assms(2)] have "w @ p @ r \<noteq> []" by auto
  then obtain c cs where "w @ p @ r = c # cs" by (cases "w @ p @ r") auto
  then show ?thesis using matchCopy_here [OF assms, of r] by simp
qed

text \<open>
  Claim C4, as the code has it. The pattern for \<open>(copy)\<close> is not anchored: the
  normalizer removes the first \<open>(copy)\<close>, in any letter case and with the white space
  before it, wherever it stands. For a name \<open>a\<close> that is not empty and neither
  starts nor ends with white space, the name with the mark put after \<open>a\<close> normalizes
  as the name without it does, at the end (\<open>b\<close> empty) and in the interior (\<open>b\<close>
  not empty) alike, when the name has no other \<open>(copy)\<close>.
\<close>

theorem normalizeGameName_copy_anywhere:
  assumes "a \<noteq> []" "\<not> is_ws (hd a)" "\<not> is_ws (last a)"
    and "\<not> includesCI (a @ b) (cu ''(copy)'')"
    and "\<forall>c\<in>set w. is_ws c"
    and "map canonicalize p = map canonicalize (cu ''(copy)'')"
  shows "normalizeGameName hostLower (Some (a @ w @ p @ b)) = normalizeGameName hostLower (Some (a @ b))"
proof -
  note e = copy_ends [OF assms(6)]
  from e(1) have pne: "p \<noteq> []" by auto
  have "trimEnd ((a @ w @ p) @ b) = (a @ w @ p) @ trimEnd b"
    using pne e(3) by (intro trimEnd_append) (simp_all add: is_ws_def)
  moreover have "trimStart (a @ w @ p @ b) = a @ w @ p @ b"
    using assms(1,2) by (intro trimStart_id) simp
  ultimately have t1: "trim (a @ w @ p @ b) = a @ w @ p @ trimEnd b"
    by (simp add: trim_def)
  have "trimStart (a @ b) = a @ b"
    using assms(1,2) by (intro trimStart_id) simp
  then have t2: "trim (a @ b) = a @ trimEnd b"
    using assms(1,3) by (simp add: trim_def trimEnd_append)
  obtain t where "b = trimEnd b @ t" using trimEnd_decomp [of b] by blast
  then have "a @ b = (a @ trimEnd b) @ t" by simp
  with assms(4) have n: "\<not> includesCI (a @ trimEnd b) (cu ''(copy)'')"
    using includesCI_append [of "a @ trimEnd b" "cu ''(copy)''" t] by auto
  then have r2: "replaceCopy (a @ trimEnd b) = a @ trimEnd b" by (rule replaceCopy_none)
  from n have na: "\<not> includesCI a (cu ''(copy)'')"
    using includesCI_append [of a "cu ''(copy)''" "trimEnd b"] by auto
  obtain c u where cu: "w @ p @ trimEnd b = c # u"
    using pne by (cases "w @ p @ trimEnd b") auto
  have "blocks c"
  proof (cases w)
    case Nil
    with cu pne e(2) show ?thesis by (cases p) (auto simp: blocks_def)
  next
    case (Cons x xs)
    with cu assms(5) show ?thesis by (auto simp: blocks_def)
  qed
  with na assms(1,3) have "replaceCopy (a @ c # u) = a @ replaceCopy (c # u)"
    by (intro replaceCopy_skip)
  then have r1: "replaceCopy (a @ w @ p @ trimEnd b) = a @ trimEnd b"
    using replaceCopy_here [OF assms(5,6), of "trimEnd b"] cu by simp
  show ?thesis
    using assms(1) by (simp add: normalizeGameName_def t1 t2 r1 r2)
qed

theorem normalizeGameName_copy_anywhere_witness:
  "\<not> includesCI (cu ''Book'' @ cu '' of Ra'') (cu ''(copy)'')
   \<and> normalizeGameName exampleLower (Some (cu ''Book'' @ cu '' '' @ cu ''(Copy)'' @ cu '' of Ra''))
       = cu ''book of ra''
   \<and> normalizeGameName exampleLower (Some (cu ''Book of Ra'' @ cu '' '' @ cu ''(COPY)'' @ []))
       = cu ''book of ra''"
proof -
  have n1: "\<not> includesCI (cu ''Book'' @ cu '' of Ra'') (cu ''(copy)'')"
    by (simp add: cu_def startsWithCI_def canonicalize_def)
  have n2: "\<not> includesCI (cu ''Book of Ra'' @ []) (cu ''(copy)'')"
    by (simp add: cu_def startsWithCI_def canonicalize_def)
  have w: "\<forall>c\<in>set (cu '' ''). is_ws c"
    by (simp add: cu_def is_ws_def)
  have p1: "map canonicalize (cu ''(Copy)'') = map canonicalize (cu ''(copy)'')"
    by (simp add: cu_def canonicalize_def)
  have p2: "map canonicalize (cu ''(COPY)'') = map canonicalize (cu ''(copy)'')"
    by (simp add: cu_def canonicalize_def)
  have a1: "cu ''Book'' \<noteq> []" "\<not> is_ws (hd (cu ''Book''))" "\<not> is_ws (last (cu ''Book''))"
    by (simp_all add: cu_def is_ws_def)
  have a2: "cu ''Book of Ra'' \<noteq> []" "\<not> is_ws (hd (cu ''Book of Ra''))"
    "\<not> is_ws (last (cu ''Book of Ra''))"
    by (simp_all add: cu_def is_ws_def)
  have 1: "normalizeGameName exampleLower (Some (cu ''Book'' @ cu '' '' @ cu ''(Copy)'' @ cu '' of Ra''))
      = normalizeGameName exampleLower (Some (cu ''Book'' @ cu '' of Ra''))"
    using a1 n1 w p1 by (rule normalizeGameName_copy_anywhere)
  have 2: "normalizeGameName exampleLower (Some (cu ''Book of Ra'' @ cu '' '' @ cu ''(COPY)'' @ []))
      = normalizeGameName exampleLower (Some (cu ''Book of Ra'' @ []))"
    using a2 n2 w p2 by (rule normalizeGameName_copy_anywhere)
  have 3: "normalizeGameName exampleLower (Some (cu ''Book'' @ cu '' of Ra'')) = cu ''book of ra''"
    "normalizeGameName exampleLower (Some (cu ''Book of Ra'' @ [])) = cu ''book of ra''"
    by (simp_all add: js_eval)
  from 1 2 3 n1 show ?thesis by simp
qed

text \<open>
  A copy mark in the interior of a name is removed, not kept.
\<close>

theorem normalizeGameName_copy_interior_counterexample:
  "normalizeGameName exampleLower (Some (cu ''Book (copy) of Ra'')) = cu ''book of ra''"
  by (simp add: js_eval)

text \<open>
  The name \<open>a\<close> has to be there: a mark at the very start leaves the white space
  after it in front of what follows, where the version suffix then finds the white
  space that it needs.
\<close>

lemma copy_mark_at_start:
  "normalizeGameName hostLower (Some (cu '' (copy) 94%'')) = []
   \<and> normalizeGameName hostLower (Some (cu '' 94%'')) = cu ''94%''"
  by (simp add: js_eval Let_def)

section \<open>The day-month-year branch of the date formatter\<close>






declare carryDays.simps [simp del]


lemma carryDays_within: "d \<le> daysInMonth y m \<Longrightarrow>
    carryDays y m d = \<lparr>utcFullYear = y, utcMonth = m, utcDate = d\<rparr>"
  by (subst carryDays.simps) simp







lemmas date_eval =
  parseInt_def dateUTC_def daysInMonth_def isLeapYear_def padZero_def is_digit_def
  is_sep_def orEmpty_def cu_def



section \<open>Selecting files and running the batch\<close>

lemma processFile_frame:
  "list_all2 (\<lambda>a b. id' a \<noteq> id' cur \<longrightarrow> b = a) prev (processFile env k fm cur prev)"
  by (auto simp: processFile_def Let_def list_all2_map2 list_all2_same split: sum.splits)

lemma fold_processFile_frame:
  "set cs \<subseteq> S \<Longrightarrow>
   list_all2 (\<lambda>a b. id' a \<notin> id' ` S \<longrightarrow> b = a) prev (fold (processFile env k fm) cs prev)"
proof (induction cs arbitrary: prev)
  case Nil
  show ?case by (simp add: list_all2_same)
next
  case (Cons c cs)
  let ?R = "\<lambda>a b. id' a \<notin> id' ` S \<longrightarrow> b = a"
  have "list_all2 (\<lambda>a b. id' a \<noteq> id' c \<longrightarrow> b = a) prev (processFile env k fm c prev)"
    by (rule processFile_frame)
  moreover have "id' c \<in> id' ` S" using Cons.prems by auto
  ultimately have 1: "list_all2 ?R prev (processFile env k fm c prev)"
    by (auto elim!: list_all2_mono)
  have 2: "list_all2 ?R (processFile env k fm c prev)
             (fold (processFile env k fm) cs (processFile env k fm c prev))"
    using Cons.prems by (intro Cons.IH) simp
  have "list_all2 ?R prev (fold (processFile env k fm) cs (processFile env k fm c prev))"
    using 1 2 by (rule list_all2_trans [rotated]) auto
  then show ?case by simp
qed

lemma handleStartProcessing_frame:
  "list_all2 (\<lambda>a b. id' a \<notin> id' ` set (filesToProcess st) \<longrightarrow> b = a)
     (processedFiles st) (processedFiles (snd (handleStartProcessing hostLower env st)))"
  by (auto simp: handleStartProcessing_def Let_def list_all2_same fold_processFile_frame)

subsection \<open>The files of the entries\<close>

lemma fold_update_other:
  "a \<notin> k ` set xs \<Longrightarrow>
   map_of (fold (\<lambda>x. AList.update (k x) (v x)) xs m) a = map_of m a"
  by (induction xs arbitrary: m) (auto simp: update_conv')

lemma fold_update_own:
  "distinct (map k xs) \<Longrightarrow> x \<in> set xs \<Longrightarrow>
   map_of (fold (\<lambda>x. AList.update (k x) (v x)) xs m) (k x) = Some (v x)"
proof (induction xs arbitrary: m)
  case Nil
  then show ?case by simp
next
  case (Cons y ys)
  show ?case
  proof (cases "x = y")
    case True
    with Cons.prems have "k y \<notin> k ` set ys" by simp
    then have "map_of (fold (\<lambda>x. AList.update (k x) (v x)) ys (AList.update (k y) (v y) m)) (k y)
        = map_of (AList.update (k y) (v y) m) (k y)"
      by (rule fold_update_other)
    with True show ?thesis by (simp add: update_conv')
  next
    case False
    with Cons.prems have "x \<in> set ys" "distinct (map k ys)" by simp_all
    then show ?thesis using Cons.IH by simp
  qed
qed

lemma initialFileData_id: "id' (initialFileData B M fn) = fileId (fst fn) (snd fn)"
  by (simp add: initialFileData_def Let_def)

lemma initialFileData_status:
  "status (initialFileData B M fn) = (if accepted B (fst fn) then Queued else Error)"
  by (auto simp: initialFileData_def accepted_def Let_def)

lemma selected_ids:
  "map id' (processedFiles (handleFilesSelected B M sel st))
     = map id' (processedFiles st) @ map (\<lambda>fn. fileId (fst fn) (snd fn)) sel"
  by (simp add: handleFilesSelected_def initialFileData_id comp_def)

lemma selected_lookup_old:
  assumes "distinct (map id' (processedFiles st) @ map (\<lambda>fn. fileId (fst fn) (snd fn)) sel)"
    and "c \<in> set (processedFiles st)"
  shows "map_of (originalFilesMap (handleFilesSelected B M sel st)) (id' c)
           = map_of (originalFilesMap st) (id' c)"
proof -
  from assms have "id' c \<notin> (\<lambda>fn. fileId (fst fn) (snd fn)) ` set sel" by auto
  then show ?thesis
    by (simp add: handleFilesSelected_def fold_update_other)
qed

lemma selected_lookup_new:
  assumes "distinct (map id' (processedFiles st) @ map (\<lambda>fn. fileId (fst fn) (snd fn)) sel)"
    and "fn \<in> set sel"
  shows "map_of (originalFilesMap (handleFilesSelected B M sel st))
           (id' (initialFileData B M fn)) = Some (fst fn)"
proof -
  from assms(1) have "distinct (map (\<lambda>fn. fileId (fst fn) (snd fn)) sel)" by simp
  then have "map_of (fold (\<lambda>fn. AList.update (fileId (fst fn) (snd fn)) (fst fn)) sel
                       (originalFilesMap st)) (fileId (fst fn) (snd fn)) = Some (fst fn)"
    using assms(2) by (rule fold_update_own)
  then show ?thesis by (simp add: handleFilesSelected_def initialFileData_id)
qed

lemma in_filesRead:
  "orig \<in> set (filesRead st) \<longleftrightarrow>
     (\<exists>c\<in>set (filesToProcess st). map_of (originalFilesMap st) (id' c) = Some orig)"
proof -
  have "orig \<in> set (concat (map (\<lambda>c. case g c of None \<Rightarrow> [] | Some x \<Rightarrow> [x]) cs))
      \<longleftrightarrow> (\<exists>c\<in>set cs. g c = Some orig)" for g :: "ProcessedFileData \<Rightarrow> File option" and cs
    by (induction cs) (auto split: option.splits)
  then show ?thesis by (simp add: filesRead_def)
qed

lemma filesRead_selected:
  assumes "distinct (map id' (processedFiles st) @ map (\<lambda>fn. fileId (fst fn) (snd fn)) sel)"
  shows "set (filesRead (handleFilesSelected B M sel st))
           \<subseteq> set (filesRead st) \<union> fst ` {fn \<in> set sel. accepted B (fst fn)}"
proof
  fix orig
  let ?st1 = "handleFilesSelected B M sel st"
  assume "orig \<in> set (filesRead ?st1)"
  then obtain c where c: "c \<in> set (processedFiles ?st1)" "status c = Queued"
    and f: "map_of (originalFilesMap ?st1) (id' c) = Some orig"
    by (auto simp: in_filesRead filesToProcess_def)
  from c(1) consider "c \<in> set (processedFiles st)"
    | fn where "fn \<in> set sel" "c = initialFileData B M fn"
    by (auto simp: handleFilesSelected_def)
  then show "orig \<in> set (filesRead st) \<union> fst ` {fn \<in> set sel. accepted B (fst fn)}"
  proof cases
    case 1
    with f have "map_of (originalFilesMap st) (id' c) = Some orig"
      using selected_lookup_old [OF assms] by simp
    with 1 c(2) have "orig \<in> set (filesRead st)"
      by (auto simp: in_filesRead filesToProcess_def)
    then show ?thesis by simp
  next
    case 2
    with f have "orig = fst fn" using selected_lookup_new [OF assms] by simp
    moreover from 2 c(2) have "accepted B (fst fn)"
      by (simp add: initialFileData_status split: if_splits)
    ultimately show ?thesis using 2(1) by auto
  qed
qed

lemma extractFile_agree:
  assumes "agreeOn fs env env'"
    and "\<And>orig. map_of fm (id' c) = Some orig \<Longrightarrow> orig \<in> set fs"
  shows "extractFile env' key fm c = extractFile env key fm c"
proof (cases "map_of fm (id' c)")
  case None
  then show ?thesis by (simp add: extractFile_def)
next
  case (Some orig)
  then have "orig \<in> set fs" by (rule assms(2))
  with assms(1) have "extractTextFromPdf env' orig = extractTextFromPdf env orig"
    "convertFileToBase64AndGetMime env' orig = convertFileToBase64AndGetMime env orig"
    "extractInfoFromText env' = extractInfoFromText env"
    "extractInfoFromImage env' = extractInfoFromImage env"
    by (simp_all add: agreeOn_def list_all_iff)
  note e = this
  show ?thesis unfolding extractFile_def Some option.case e by (rule refl)
qed

lemma processFile_agree:
  assumes "agreeOn fs env env'"
    and "\<And>orig. map_of fm (id' c) = Some orig \<Longrightarrow> orig \<in> set fs"
  shows "processFile env' key fm c prev = processFile env key fm c prev"
  using extractFile_agree [OF assms] by (simp add: processFile_def)

lemma fold_processFile_agree:
  assumes "agreeOn fs env env'"
    and "\<And>c orig. c \<in> set cs \<Longrightarrow> map_of fm (id' c) = Some orig \<Longrightarrow> orig \<in> set fs"
  shows "fold (processFile env' key fm) cs prev = fold (processFile env key fm) cs prev"
  using assms(2)
proof (induction cs arbitrary: prev)
  case Nil
  show ?case by simp
next
  case (Cons c cs)
  have "processFile env' key fm c prev = processFile env key fm c prev"
    using assms(1) Cons.prems by (intro processFile_agree) auto
  moreover have "fold (processFile env' key fm) cs p = fold (processFile env key fm) cs p" for p
    using Cons.prems by (intro Cons.IH) auto
  ultimately show ?case by simp
qed

lemma handleStartProcessing_agree:
  assumes "agreeOn (filesRead st) env env'"
  shows "handleStartProcessing hostLower env' st = handleStartProcessing hostLower env st"
proof -
  have "fold (processFile env' (apiKey st) (originalFilesMap st)) (filesToProcess st)
          (processedFiles st)
      = fold (processFile env (apiKey st) (originalFilesMap st)) (filesToProcess st)
          (processedFiles st)"
    using assms by (rule fold_processFile_agree) (auto simp: in_filesRead)
  then show ?thesis by (simp add: handleStartProcessing_def Let_def)
qed

lemma handleStartProcessing_frame_status:
  assumes "distinct (map id' (processedFiles st))"
  shows "list_all2 (\<lambda>a b. status a \<noteq> Queued \<longrightarrow> b = a)
     (processedFiles st) (processedFiles (snd (handleStartProcessing hostLower env st)))"
proof -
  have "list_all2 (\<lambda>a b. id' a \<notin> id' ` set (filesToProcess st) \<longrightarrow> b = a)
     (processedFiles st) (processedFiles (snd (handleStartProcessing hostLower env st)))"
    by (rule handleStartProcessing_frame)
  then show ?thesis
  proof (rule list.rel_mono_strong)
    fix a b
    assume a: "a \<in> set (processedFiles st)"
      and i: "id' a \<notin> id' ` set (filesToProcess st) \<longrightarrow> b = a"
    show "status a \<noteq> Queued \<longrightarrow> b = a"
    proof
      assume s: "status a \<noteq> Queued"
      have "id' a \<notin> id' ` set (filesToProcess st)"
      proof
        assume "id' a \<in> id' ` set (filesToProcess st)"
        then obtain c where c: "c \<in> set (processedFiles st)" "status c = Queued" "id' a = id' c"
          by (auto simp: filesToProcess_def)
        from assms have "inj_on id' (set (processedFiles st))" by (simp add: distinct_map)
        with a c have "a = c" by (auto dest: inj_onD)
        with s c(2) show False by simp
      qed
      with i show "b = a" by simp
    qed
  qed
qed


text \<open>
  Claim C8, as the code has it. A selected file enters \<open>error\<close>, with its message,
  when it is larger than the ceiling or when its MIME type is neither exactly
  \<open>application/pdf\<close> nor a string that starts with \<open>image/png\<close> or
  \<open>image/jpeg\<close>; every other selected file enters \<open>queued\<close>. When the
  identifiers of the entries, those of the list and those of the selection, are
  pairwise distinct, a rejected file is never processed: the file kept for an entry is
  the file that was tested for it, a run after the selection takes from the map only
  files that a run before it would have taken and accepted files of the selection, its
  outcome does not depend on what the collaborators do with any other file, and it
  leaves every entry that is not \<open>queued\<close> as it is, the rejected one in \<open>error\<close>
  among them. With or without distinct identifiers, the run leaves every entry as it
  is whose identifier is not the identifier of a queued entry.
\<close>

theorem rejected_files_stay_rejected:
  fixes MAX_BYTES MAX_MB :: nat and st :: AppState and selected :: "(File \<times> nat) list"
    and fn :: "File \<times> nat"
  defines "st1 \<equiv> handleFilesSelected MAX_BYTES MAX_MB selected st"
    and "e \<equiv> initialFileData MAX_BYTES MAX_MB fn"
  assumes "fn \<in> set selected"
    and "distinct (map id' (processedFiles st)
                   @ map (\<lambda>fn. fileId (fst fn) (snd fn)) selected)"
  shows "e \<in> set (processedFiles st1)
    \<and> status e =
        (if MAX_BYTES < size' (fst fn) \<or> (\<not> isPdf (fst fn) \<and> \<not> isImage (fst fn))
         then Error else Queued)
    \<and> errorMessage e =
        (if MAX_BYTES < size' (fst fn)
         then Some (cu ''File exceeds '' @ digitsOf MAX_MB @ cu ''MB limit.'')
         else if \<not> isPdf (fst fn) \<and> \<not> isImage (fst fn)
         then Some (cu ''Invalid file type: '' @ type' (fst fn)
                @ cu ''. Please upload PDF (.pdf), PNG (.png), or JPEG (.jpg) files.'')
         else None)
    \<and> map_of (originalFilesMap st1) (id' e) = Some (fst fn)
    \<and> set (filesRead st1)
        \<subseteq> set (filesRead st) \<union> fst ` {fn' \<in> set selected. accepted MAX_BYTES (fst fn')}
    \<and> (\<forall>env'. agreeOn (filesRead st1) env env' \<longrightarrow>
          handleStartProcessing hostLower env' st1 = handleStartProcessing hostLower env st1)
    \<and> list_all2 (\<lambda>a b. status a \<noteq> Queued \<longrightarrow> b = a)
         (processedFiles st1) (processedFiles (snd (handleStartProcessing hostLower env st1)))
    \<and> list_all2 (\<lambda>a b. id' a \<notin> id' ` set (filesToProcess st1) \<longrightarrow> b = a)
         (processedFiles st1) (processedFiles (snd (handleStartProcessing hostLower env st1)))"
proof -
  have "e \<in> set (processedFiles st1)"
    using assms(3) by (simp add: st1_def e_def handleFilesSelected_def)
  moreover have "status e =
        (if MAX_BYTES < size' (fst fn) \<or> (\<not> isPdf (fst fn) \<and> \<not> isImage (fst fn))
         then Error else Queued)"
    by (simp add: e_def initialFileData_def Let_def)
  moreover have "errorMessage e =
        (if MAX_BYTES < size' (fst fn)
         then Some (cu ''File exceeds '' @ digitsOf MAX_MB @ cu ''MB limit.'')
         else if \<not> isPdf (fst fn) \<and> \<not> isImage (fst fn)
         then Some (cu ''Invalid file type: '' @ type' (fst fn)
                @ cu ''. Please upload PDF (.pdf), PNG (.png), or JPEG (.jpg) files.'')
         else None)"
    by (simp add: e_def initialFileData_def Let_def)
  moreover have "map_of (originalFilesMap st1) (id' e) = Some (fst fn)"
    unfolding st1_def e_def using assms(4,3) by (rule selected_lookup_new)
  moreover have "set (filesRead st1)
        \<subseteq> set (filesRead st) \<union> fst ` {fn' \<in> set selected. accepted MAX_BYTES (fst fn')}"
    unfolding st1_def using assms(4) by (rule filesRead_selected)
  moreover have "\<forall>env'. agreeOn (filesRead st1) env env' \<longrightarrow>
          handleStartProcessing hostLower env' st1 = handleStartProcessing hostLower env st1"
    by (simp add: handleStartProcessing_agree)
  moreover have "list_all2 (\<lambda>a b. status a \<noteq> Queued \<longrightarrow> b = a)
         (processedFiles st1) (processedFiles (snd (handleStartProcessing hostLower env st1)))"
  proof (rule handleStartProcessing_frame_status)
    show "distinct (map id' (processedFiles st1))"
      using assms(4) by (simp add: st1_def selected_ids)
  qed
  moreover have "list_all2 (\<lambda>a b. id' a \<notin> id' ` set (filesToProcess st1) \<longrightarrow> b = a)
         (processedFiles st1) (processedFiles (snd (handleStartProcessing hostLower env st1)))"
    by (rule handleStartProcessing_frame)
  ultimately show ?thesis by simp
qed

subsection \<open>A selection and its run\<close>

lemma parsed_dataLine: "map fst (parseProviderData hostLower dataLine) = [cu ''book of ra'']"
proof -
  have "10 \<notin> set dataLine" by (simp add: dataLine_def cu_def)
  then have d: "split 10 dataLine = [dataLine]" by (rule split_no_sep)
  have f: "split 9 dataLine =
     [cu ''Book of Ra'', cu ''Novomatic'', cu ''Yes'', cu ''05/03/2024'', cu ''-'', cu ''bor_1'']"
    by (simp add: dataLine_def cu_def)
  have a: "map fst (addProviderLine hostLower dataLine []) = [cu ''book of ra'']"
    by (simp add: addProviderLine_def f Let_def) (simp add: js_eval Let_def)
  have "\<not> includesStr (toLowerCase hostLower dataLine) (cu ''game provider'')"
    by (simp add: dataLine_def js_eval)
  then show ?thesis by (simp add: parseProviderData_def dataLines_def d a)
qed

lemmas batch_eval =
  handleFilesSelected_def initialFileData_def fileId_def isPdf_def isImage_def
  handleStartProcessing_def filesToProcess_def processFile_def extractFile_def
  exampleEnv_def exampleInfo_def emptyState_def bigPdf_def bigTwin_def examplePdf_def
  startsWith_def Let_def

lemma afterSelection_files:
  "processedFiles afterSelection =
     [initialFileData 10485760 10 (bigPdf, 1700000000000),
      initialFileData 10485760 10 (examplePdf, 1700000000000)]"
  by (simp add: afterSelection_def handleFilesSelected_def emptyState_def)

lemma afterSelection_status: "map status (processedFiles afterSelection) = [Error, Queued]"
  by (simp add: afterSelection_files) (simp add: batch_eval cu_def)

lemma parsed_dataLine_not_empty: "parseProviderData hostLower dataLine \<noteq> []"
  using parsed_dataLine [of hostLower] by auto

lemma afterSelection_distinct:
  "distinct (map id' (processedFiles emptyState)
             @ map (\<lambda>fn. fileId (fst fn) (snd fn))
                 [(bigPdf, 1700000000000), (examplePdf, 1700000000000)])"
  by (simp add: emptyState_def fileId_def bigPdf_def examplePdf_def cu_def)

lemma filesRead_emptyState: "filesRead emptyState = []"
  by (simp add: filesRead_def filesToProcess_def emptyState_def)

lemma accepted_examples:
  "\<not> accepted 10485760 bigPdf" "accepted 10485760 examplePdf" "bigPdf \<noteq> examplePdf"
  by (simp_all add: accepted_def bigPdf_def examplePdf_def isPdf_def)

theorem rejected_files_stay_rejected_witness:
  "(bigPdf, 1700000000000) \<in> set [(bigPdf, 1700000000000), (examplePdf, 1700000000000)]
   \<and> distinct (map id' (processedFiles emptyState)
               @ map (\<lambda>fn. fileId (fst fn) (snd fn))
                   [(bigPdf, 1700000000000), (examplePdf, 1700000000000)])
   \<and> map status (processedFiles afterSelection) = [Error, Queued]
   \<and> bigPdf \<notin> set (filesRead afterSelection)
   \<and> processedFiles (snd (handleStartProcessing exampleLower exampleEnv afterSelection)) ! 0
       = initialFileData 10485760 10 (bigPdf, 1700000000000)"
proof -
  let ?e = "initialFileData 10485760 10 (bigPdf, 1700000000000)"
  let ?sel = "[(bigPdf, 1700000000000::nat), (examplePdf, 1700000000000)]"
  have m: "(bigPdf, 1700000000000) \<in> set ?sel" by simp
  note t = rejected_files_stay_rejected
      [where fn = "(bigPdf, 1700000000000)" and selected = ?sel
         and MAX_BYTES = 10485760 and MAX_MB = 10 and st = emptyState and env = exampleEnv
         and hostLower = exampleLower, OF m afterSelection_distinct,
       folded afterSelection_def]
  from t have r: "set (filesRead afterSelection)
      \<subseteq> set (filesRead emptyState) \<union> fst ` {fn' \<in> set ?sel. accepted 10485760 (fst fn')}"
    by blast
  from t have l: "list_all2 (\<lambda>a b. status a \<noteq> Queued \<longrightarrow> b = a)
         (processedFiles afterSelection)
         (processedFiles (snd (handleStartProcessing exampleLower exampleEnv afterSelection)))"
    by blast
  from r have 1: "bigPdf \<notin> set (filesRead afterSelection)"
    using accepted_examples by (auto simp: filesRead_emptyState)
  from l have "status (processedFiles afterSelection ! 0) \<noteq> Queued
      \<longrightarrow> processedFiles (snd (handleStartProcessing exampleLower exampleEnv afterSelection)) ! 0
          = processedFiles afterSelection ! 0"
    by (rule list_all2_nthD) (simp add: afterSelection_files)
  moreover have "status (processedFiles afterSelection ! 0) = Error"
    using afterSelection_status by (simp add: afterSelection_files)
  ultimately have 2:
    "processedFiles (snd (handleStartProcessing exampleLower exampleEnv afterSelection)) ! 0 = ?e"
    by (simp add: afterSelection_files)
  from m afterSelection_distinct afterSelection_status 1 2 show ?thesis by simp
qed

lemma batch_completes_the_queued_file:
  "map status (processedFiles (snd (handleStartProcessing hostLower exampleEnv afterSelection)))
     = [Error, Completed]"
  by (simp add: afterSelection_def batch_eval parsed_dataLine_not_empty)
     (simp add: js_eval)

text \<open>
  The type \<open>image/pngx\<close> is none of the three types of the list, and a file of that
  type is queued: the code tests the two image types by their prefix. And the
  identifier of a file is its name and the clock's value, under which the file is put
  into the map before it is tested: of two files of one name selected at one value of
  the clock, a small one and then one above the ceiling, the second is rejected and
  takes the place of the first in the map, so that the run for the queued entry
  processes the rejected file, and completes both entries.
\<close>

theorem rejected_twin_is_processed_counterexample:
  "type' pngxFile \<notin> {cu ''application/pdf'', cu ''image/png'', cu ''image/jpeg''}
   \<and> status (initialFileData 10485760 10 (pngxFile, 1700000000000)) = Queued
   \<and> map status (processedFiles afterTwins) = [Queued, Error]
   \<and> filesRead afterTwins = [bigTwin]
   \<and> 10485760 < size' bigTwin
   \<and> map status (processedFiles (snd (handleStartProcessing exampleLower exampleEnv afterTwins)))
       = [Completed, Completed]"
proof -
  have 1: "type' pngxFile \<notin> {cu ''application/pdf'', cu ''image/png'', cu ''image/jpeg''}
      \<and> status (initialFileData 10485760 10 (pngxFile, 1700000000000)) = Queued"
    by (simp add: initialFileData_def pngxFile_def isPdf_def isImage_def startsWith_def cu_def
        Let_def)
  have 2: "map status (processedFiles afterTwins) = [Queued, Error]"
    by (simp add: afterTwins_def batch_eval cu_def)
  have 3: "filesRead afterTwins = [bigTwin]"
    by (simp add: filesRead_def afterTwins_def batch_eval cu_def)
  have 4: "10485760 < size' bigTwin" by (simp add: bigTwin_def)
  have 5: "map status
      (processedFiles (snd (handleStartProcessing exampleLower exampleEnv afterTwins)))
       = [Completed, Completed]"
    by (simp add: afterTwins_def batch_eval parsed_dataLine_not_empty)
       (simp add: js_eval)
  from 1 2 3 4 5 show ?thesis by simp
qed


section \<open>The full table and the extracted game code\<close>

lemma fullRow_erase:
  "fullRow hostLower hostDate m (eraseGameCodes f) (i\<lparr>gameCode := None\<rparr>) = fullRow hostLower hostDate m f i"
  by (simp add: fullRow_def eraseGameCodes_def)

lemma fullRows_erase: "fullRows hostLower hostDate m (eraseGameCodes f) = fullRows hostLower hostDate m f"
proof -
  have "status (eraseGameCodes f) = status f"
    "reportNumber (eraseGameCodes f) = reportNumber f"
    "extractedInstances (eraseGameCodes f) = [] \<longleftrightarrow> extractedInstances f = []"
    by (simp_all add: eraseGameCodes_def)
  moreover have "map (fullRow hostLower hostDate m (eraseGameCodes f)) (extractedInstances (eraseGameCodes f))
      = map (fullRow hostLower hostDate m f) (extractedInstances f)"
    using fullRow_erase [of hostLower hostDate m f] by (simp add: eraseGameCodes_def comp_def)
  ultimately show ?thesis by (simp add: fullRows_def)
qed

lemma copyToClipboard_erase:
  "copyToClipboard hostLower hostDate m (map eraseGameCodes data) = copyToClipboard hostLower hostDate m data"
  by (simp add: copyToClipboard_def comp_def fullRows_erase)

text \<open>
  Claim C7. The full table does not read the game code of the extraction: two lists of
  files that differ only in the \<open>gameCode\<close> of their instances give the same text,
  for the same reference table. The code column comes from the table's
  \<open>imsGameCode\<close>, looked up by the normalized name.
\<close>

theorem copyToClipboard_ignores_gameCode:
  assumes "map eraseGameCodes data1 = map eraseGameCodes data2"
  shows "copyToClipboard hostLower hostDate m data1 = copyToClipboard hostLower hostDate m data2"
proof -
  have "copyToClipboard hostLower hostDate m data1 = copyToClipboard hostLower hostDate m (map eraseGameCodes data1)"
    by (simp add: copyToClipboard_erase)
  also have "\<dots> = copyToClipboard hostLower hostDate m (map eraseGameCodes data2)"
    using assms by simp
  also have "\<dots> = copyToClipboard hostLower hostDate m data2"
    by (simp add: copyToClipboard_erase)
  finally show ?thesis .
qed

theorem copyToClipboard_ignores_gameCode_witness:
  "map eraseGameCodes [certWithCode (Some (cu ''zzz_mcg''))] = map eraseGameCodes [certWithCode None]
   \<and> copyToClipboard exampleLower (\<lambda>s. None) codedMap [certWithCode (Some (cu ''zzz_mcg''))]
       = copyToClipboard exampleLower (\<lambda>s. None) codedMap [certWithCode None]"
proof -
  have e: "map eraseGameCodes [certWithCode (Some (cu ''zzz_mcg''))]
      = map eraseGameCodes [certWithCode None]"
    by (simp add: eraseGameCodes_def certWithCode_def)
  then show ?thesis
    using copyToClipboard_ignores_gameCode [of _ _ exampleLower "\<lambda>s. None" codedMap] by blast
qed


lemmas table_eval =
  fullRow_def fullRows_def copyToClipboard_def comRow_def comRows_def comDataRows_def
  sortRows_def comCompare_def comLine_def authoritativeImsCodeMap_def getDisplayHash_def
  formatListForClipboard_def formatDateToYyyyMmDd_def formatDmy_def matchDmy_def
  isIsoShape_def isoDatePart_def carryDays_within Let_def

lemma full_table_example:
  "copyToClipboard hostLower (\<lambda>s. None) codedMap [certWithCode (Some (cu ''zzz_mcg''))] =
     Some (fullHeaders @ [10]
       @ join [9] [cu ''Book of Ra'', cu ''bor_1'', [], cu ''R-1'', cu ''Yes'', cu ''2024-03-05'',
           [], [], [34] @ cu ''game.dll'' @ [34], [34] @ cu ''d41d'' @ [34]])"
  by (simp add: codedMap_def certWithCode_def table_eval date_eval js_eval)

section \<open>The condensed table\<close>

lemma comCompare_keyLe: "comCompare a b \<le> 0 \<longleftrightarrow> keyLe a b"
  by (auto simp: comCompare_def keyLe_def)

lemma keyLe_total: "keyLe a b \<or> keyLe b a"
  by (auto simp: keyLe_def)

lemma keyLe_trans: "keyLe a b \<Longrightarrow> keyLe b c \<Longrightarrow> keyLe a c"
  by (auto simp: keyLe_def)

lemma set_insertRow: "set (insertRow a bs) = insert a (set bs)"
  by (induction bs) auto

lemma sorted_insertRow: "sorted_wrt keyLe bs \<Longrightarrow> sorted_wrt keyLe (insertRow a bs)"
proof (induction bs)
  case Nil
  show ?case by simp
next
  case (Cons b bs)
  show ?case
  proof (cases "comCompare a b \<le> 0")
    case True
    then have "keyLe a b" by (simp add: comCompare_keyLe)
    with Cons.prems have "\<forall>x\<in>set (b # bs). keyLe a x"
      by (auto intro: keyLe_trans)
    with True Cons.prems show ?thesis by simp
  next
    case False
    then have "keyLe b a" using keyLe_total [of a b] by (simp add: comCompare_keyLe)
    with False Cons show ?thesis by (auto simp: set_insertRow)
  qed
qed

lemma sortRows_sorted: "sorted_wrt keyLe (sortRows rows)"
  unfolding sortRows_def by (induction rows) (simp_all add: sorted_insertRow)

lemma mset_insertRow: "mset (insertRow a bs) = add_mset a (mset bs)"
  by (induction bs) auto

lemma mset_sortRows: "mset (sortRows rows) = mset rows"
  unfolding sortRows_def by (induction rows) (simp_all add: mset_insertRow)

text \<open>
  The rows of the condensed table are those of the completed files, in the order of the
  provider name and then of the displayed game name, both compared by code units.
\<close>

lemma comDataRows_sorted:
  "sorted_wrt keyLe (comDataRows hostLower hostDate m data)
   \<and> mset (comDataRows hostLower hostDate m data) = mset (concat (map (comRows hostLower hostDate m) data))"
  by (simp add: comDataRows_def sortRows_sorted mset_sortRows)

lemma authoritative_none:
  "map_of m k = None \<Longrightarrow> map_of (authoritativeImsCodeMap m) k = None"
proof -
  have "map_of acc k = None \<Longrightarrow> map_of m k = None \<Longrightarrow>
      map_of (fold (\<lambda>(gameNameKey, providerInfo) acc.
             if truthy (imsGameCode providerInfo)
             then AList.update gameNameKey (orEmpty (imsGameCode providerInfo)) acc
             else acc) m acc) k = None" for acc
  proof (induction m arbitrary: acc)
    case Nil
    then show ?case by simp
  next
    case (Cons x m)
    then show ?case by (cases x) (auto simp: update_conv' split: if_splits)
  qed
  then show "map_of m k = None \<Longrightarrow> map_of (authoritativeImsCodeMap m) k = None"
    by (simp add: authoritativeImsCodeMap_def)
qed

text \<open>
  A completed file without instances gives one row: no name, no code, no activation,
  no date, the report number of the file, and the provider that stands for none. The
  table of the application has no entry for the empty key.
\<close>

lemma placeholder_row:
  assumes "status f = Completed" "extractedInstances f = []" "map_of m [] = None"
  shows "comRows hostLower hostDate m f =
           [\<lparr>gameName' = [], gameCode' = [], certificateRef = orEmpty (reportNumber f),
             activatedInIms' = [], date = [], provider' = cu ''ZZZ_Uncategorized''\<rparr>]"
  using assms
  by (simp add: comRows_def comRow_def normalizeGameName_def cleanGameNameForDisplay_def
      authoritative_none formatDateToYyyyMmDd_def orEmpty_def)

lemma parseProviderData_no_empty_key: "map_of (parseProviderData hostLower text) [] = None"
proof -
  have "map_of acc [] = None \<Longrightarrow> map_of (fold (addProviderLine hostLower) ls acc) [] = None" for ls acc
  proof (induction ls arbitrary: acc)
    case Nil
    then show ?case by simp
  next
    case (Cons l ls)
    have "map_of (addProviderLine hostLower l acc) [] = None"
      using Cons.prems by (auto simp: addProviderLine_def Let_def update_conv')
    then show ?case by (simp add: Cons.IH)
  qed
  then show ?thesis by (simp add: parseProviderData_def)
qed

text \<open>
  Claim C6 at a failing input. The provider \<open>iSoftBet\<close> starts with a lower-case
  letter, which comes after \<open>Z\<close>: the row without a provider, sorted under
  \<open>ZZZ_Uncategorized\<close>, comes before the row of the resolved provider, not after it.
\<close>

theorem sentinel_before_lowercase_provider:
  "map (\<lambda>r. (provider' r, gameName' r))
     (comDataRows hostLower (\<lambda>s. None) codedMap [certWithCode None, unresolvedFile])
   = [(cu ''ZZZ_Uncategorized'', cu ''Mystery''), (cu ''iSoftBet'', cu ''Book of Ra'')]"
  by (simp add: codedMap_def certWithCode_def unresolvedFile_def unknownGame_def
      table_eval date_eval js_eval)

text \<open>
  Claim C10 at a failing input. The row of the completed file without instances is as
  the claim says (lemma \<open>placeholder_row\<close>), and it is sorted under
  \<open>ZZZ_Uncategorized\<close>; with the provider \<open>iSoftBet\<close> in the table it comes first,
  before the row of the resolved provider.
\<close>

theorem placeholder_before_lowercase_provider:
  "map comLine (comDataRows hostLower (\<lambda>s. None) codedMap [certWithCode None, emptyCompleted])
   = [join [9] [[], [], cu ''R-3'', [], []],
      join [9] [cu ''Book of Ra'', cu ''bor_1'', cu ''R-1'', cu ''Yes'', cu ''2024-03-05'']]"
  by (simp add: codedMap_def certWithCode_def emptyCompleted_def
      table_eval date_eval js_eval)

end
